theory Spec2Isabelle
  imports Complex_Main
begin

section \<open>Load shapes of the Sock Shop load generator\<close>

text \<open>
  The four \<^verbatim>\<open>LoadTestShape\<close> subclasses of \<^verbatim>\<open>load_shapes.py\<close> (repeated verbatim in
  \<^verbatim>\<open>locustfile.py\<close> and in the per-pattern locust files). Each class is a record of the
  attributes its \<^verbatim>\<open>__init__\<close> assigns; \<^verbatim>\<open>__init__\<close> takes no argument and is the constant
  record of those assignments. \<^verbatim>\<open>tick\<close> reads the elapsed run time from the clock through
  \<^verbatim>\<open>get_run_time()\<close>; here the run time read is the second argument. Python's unbounded
  ints are \<open>int\<close>; a Python float is the real number it stands for, and every float
  operation rounds its exact result to a double. A method call returns the value returned
  together with the object after the call; \<^verbatim>\<open>None\<close> is \<open>None\<close>, a tuple
  \<^verbatim>\<open>(user_count, spawn_rate)\<close> is \<open>Some (user_count, spawn_rate)\<close>. Attributes that several
  classes share by name carry the class's initials as a prefix.
\<close>

datatype py_error = ZeroDivisionError

type_synonym directive = "int \<times> int"

text \<open>Python's \<^verbatim>\<open>int(x)\<close> on a float: truncation toward zero.\<close>

definition py_int :: "real \<Rightarrow> int" where
  "py_int x = (if 0 \<le> x then \<lfloor>x\<rfloor> else \<lceil>x\<rceil>)"

subsection \<open>Python floats\<close>

text \<open>
  A Python float is an IEEE 754 double: 53 significant bits, rounding to nearest with
  ties to the even significand. Around \<open>x\<close> the doubles are \<open>ulp x\<close> apart, which is
  \<open>2\<^sup>e\<^sup>-\<^sup>5\<^sup>2\<close> for \<open>2\<^sup>e \<le> \<bar>x\<bar> < 2\<^sup>e\<^sup>+\<^sup>1\<close> and stays \<open>2\<^sup>-\<^sup>1\<^sup>0\<^sup>7\<^sup>4\<close> below \<open>2\<^sup>-\<^sup>1\<^sup>0\<^sup>2\<^sup>2\<close> (the
  subnormal numbers). Overflow to infinity, at magnitudes from \<open>2\<^sup>1\<^sup>0\<^sup>2\<^sup>4\<close> on, is left out:
  with the attribute values the constructors assign, no operation of \<^verbatim>\<open>tick\<close> on a finite
  run time comes near it.
\<close>

definition round_half_even :: "real \<Rightarrow> int" where
  "round_half_even x =
     (let n = \<lfloor>x\<rfloor>; r = x - of_int n
      in if r < 1 / 2 then n else if 1 / 2 < r then n + 1 else if even n then n else n + 1)"

definition float_exponent :: "real \<Rightarrow> int" where
  "float_exponent x = max \<lfloor>log 2 \<bar>x\<bar>\<rfloor> (- 1022)"

definition ulp :: "real \<Rightarrow> real" where
  "ulp x = 2 powi (float_exponent x - 52)"

definition float_round :: "real \<Rightarrow> real" where
  "float_round x = (if x = 0 then 0 else of_int (round_half_even (x / ulp x)) * ulp x)"

text \<open>
  The conversion of an int operand to a float, and the four float operations \<^verbatim>\<open>tick\<close>
  uses. Division is only applied to a divisor that has been tested against 0.
\<close>

definition float_of_int :: "int \<Rightarrow> real" where
  "float_of_int n = float_round (of_int n)"

definition float_add :: "real \<Rightarrow> real \<Rightarrow> real" where
  "float_add x y = float_round (x + y)"

definition float_sub :: "real \<Rightarrow> real \<Rightarrow> real" where
  "float_sub x y = float_round (x - y)"

definition float_mul :: "real \<Rightarrow> real \<Rightarrow> real" where
  "float_mul x y = float_round (x * y)"

definition float_truediv :: "real \<Rightarrow> real \<Rightarrow> real" where
  "float_truediv x y = float_round (x / y)"

subsection \<open>ConstantLoad\<close>

record ConstantLoad =
  cl_user_count :: int
  cl_spawn_rate :: int
  cl_test_duration :: int

definition ConstantLoad_init :: ConstantLoad where
  "ConstantLoad_init = \<lparr>cl_user_count = 50, cl_spawn_rate = 5, cl_test_duration = 600\<rparr>"

definition ConstantLoad_tick :: "ConstantLoad \<Rightarrow> real \<Rightarrow> directive option \<times> ConstantLoad" where
  "ConstantLoad_tick self run_time =
     (if run_time < of_int (cl_test_duration self)
      then (Some (cl_user_count self, cl_spawn_rate self), self)
      else (None, self))"

subsection \<open>StepLoad\<close>

record StepLoad =
  steps :: "(int \<times> int \<times> int) list"
  st_test_duration :: int

definition StepLoad_init :: StepLoad where
  "StepLoad_init =
     \<lparr>steps = [(0, 100, 10), (120, 200, 20), (240, 100, 10), (360, 300, 30), (480, 50, 5)],
      st_test_duration = 600\<rparr>"

text \<open>
  The \<^verbatim>\<open>for\<close> loop over \<^verbatim>\<open>self.steps\<close>: the accumulator is \<^verbatim>\<open>current_step\<close>, and the
  \<^verbatim>\<open>break\<close> leaves the loop at the first step that has not started yet.
\<close>

fun StepLoad_scan :: "real \<Rightarrow> directive \<Rightarrow> (int \<times> int \<times> int) list \<Rightarrow> directive" where
  "StepLoad_scan run_time current_step [] = current_step"
| "StepLoad_scan run_time current_step ((start_time, user_count, spawn_rate) # rest) =
     (if run_time \<ge> of_int start_time
      then StepLoad_scan run_time (user_count, spawn_rate) rest
      else current_step)"

definition StepLoad_tick :: "StepLoad \<Rightarrow> real \<Rightarrow> directive option \<times> StepLoad" where
  "StepLoad_tick self run_time =
     (if run_time \<ge> of_int (st_test_duration self) then (None, self)
      else (Some (StepLoad_scan run_time (50, 5) (steps self)), self))"

subsection \<open>SpikeLoad\<close>

record SpikeLoad =
  spikes :: "(int \<times> int \<times> int) list"
  base_users :: int
  base_spawn_rate :: int
  sp_test_duration :: int

definition SpikeLoad_init :: SpikeLoad where
  "SpikeLoad_init =
     \<lparr>spikes = [(60, 30, 15), (180, 30, 50), (300, 30, 100), (420, 30, 25)],
      base_users = 10, base_spawn_rate = 2, sp_test_duration = 600\<rparr>"

text \<open>
  The \<^verbatim>\<open>for\<close> loop over \<^verbatim>\<open>self.spikes\<close>: it returns from inside the loop at the first
  window that contains the run time (\<open>Some\<close>), and falls through otherwise (\<open>None\<close>).
\<close>

fun SpikeLoad_scan :: "real \<Rightarrow> (int \<times> int \<times> int) list \<Rightarrow> directive option" where
  "SpikeLoad_scan run_time [] = None"
| "SpikeLoad_scan run_time ((spike_time, duration, peak_users) # rest) =
     (if of_int spike_time \<le> run_time \<and> run_time < of_int (spike_time + duration)
      then Some (peak_users, 20)
      else SpikeLoad_scan run_time rest)"

definition SpikeLoad_tick :: "SpikeLoad \<Rightarrow> real \<Rightarrow> directive option \<times> SpikeLoad" where
  "SpikeLoad_tick self run_time =
     (if run_time \<ge> of_int (sp_test_duration self) then (None, self)
      else (case SpikeLoad_scan run_time (spikes self) of
              Some d \<Rightarrow> (Some d, self)
            | None \<Rightarrow> (Some (base_users self, base_spawn_rate self), self)))"

subsection \<open>RampLoad\<close>

record RampLoad =
  ramp_up_duration :: int
  peak_duration :: int
  ramp_down_duration :: int
  min_users :: int
  max_users :: int
  rl_test_duration :: int

definition RampLoad_init :: RampLoad where
  "RampLoad_init =
     \<lparr>ramp_up_duration = 300, peak_duration = 120, ramp_down_duration = 180,
      min_users = 10, max_users = 150, rl_test_duration = 600\<rparr>"

text \<open>
  The comparisons of the float run time with an int are exact in Python. In the
  arithmetic every int operand is converted to a float first; the two divisions are float
  divisions by an int attribute, and Python raises \<^verbatim>\<open>ZeroDivisionError\<close> when that
  attribute is 0.
\<close>

definition RampLoad_tick :: "RampLoad \<Rightarrow> real \<Rightarrow> (py_error + directive option) \<times> RampLoad" where
  "RampLoad_tick self run_time =
     (if run_time \<ge> of_int (rl_test_duration self) then (Inr None, self)
      else if run_time \<le> of_int (ramp_up_duration self) then
        (if ramp_up_duration self = 0 then (Inl ZeroDivisionError, self)
         else
           let progress = float_truediv run_time (float_of_int (ramp_up_duration self));
               current_users =
                 py_int (float_add (float_of_int (min_users self))
                           (float_mul (float_of_int (max_users self - min_users self)) progress));
               spawn_rate = 10
           in (Inr (Some (current_users, spawn_rate)), self))
      else if run_time \<le> of_int (ramp_up_duration self + peak_duration self) then
        (let current_users = max_users self;
             spawn_rate = 5
         in (Inr (Some (current_users, spawn_rate)), self))
      else if run_time \<le> of_int (ramp_up_duration self + peak_duration self + ramp_down_duration self) then
        (if ramp_down_duration self = 0 then (Inl ZeroDivisionError, self)
         else
           let ramp_down_start = ramp_up_duration self + peak_duration self;
               progress =
                 float_truediv (float_sub run_time (float_of_int ramp_down_start))
                   (float_of_int (ramp_down_duration self));
               current_users =
                 py_int (float_sub (float_of_int (max_users self))
                           (float_mul (float_of_int (max_users self - min_users self)) progress));
               spawn_rate = 8
           in (Inr (Some (current_users, spawn_rate)), self))
      else (Inr None, self))"

text \<open>
  The floats that the built-in RampLoad truncates to its user count: in the ramp-up
  \<^verbatim>\<open>min_users + (max_users - min_users) * progress\<close> with \<open>progress = run_time / 300\<close>, in
  the ramp-down \<^verbatim>\<open>max_users - (max_users - min_users) * progress\<close> with
  \<open>progress = (run_time - 420) / 180\<close>, each operation a float operation.
\<close>

definition ramp_up_value :: "real \<Rightarrow> real" where
  "ramp_up_value t =
     float_add (float_of_int 10) (float_mul (float_of_int 140) (float_truediv t (float_of_int 300)))"

definition ramp_down_value :: "real \<Rightarrow> real" where
  "ramp_down_value t =
     float_sub (float_of_int 150)
       (float_mul (float_of_int 140)
          (float_truediv (float_sub t (float_of_int 420)) (float_of_int 180)))"

subsection \<open>The four variants behind the one \<^verbatim>\<open>tick\<close> method\<close>

datatype shape =
  Constant ConstantLoad
| Step StepLoad
| Spike SpikeLoad
| Ramp RampLoad

fun tick :: "shape \<Rightarrow> real \<Rightarrow> (py_error + directive option) \<times> shape" where
  "tick (Constant self) run_time =
     (case ConstantLoad_tick self run_time of (r, self') \<Rightarrow> (Inr r, Constant self'))"
| "tick (Step self) run_time =
     (case StepLoad_tick self run_time of (r, self') \<Rightarrow> (Inr r, Step self'))"
| "tick (Spike self) run_time =
     (case SpikeLoad_tick self run_time of (r, self') \<Rightarrow> (Inr r, Spike self'))"
| "tick (Ramp self) run_time =
     (case RampLoad_tick self run_time of (r, self') \<Rightarrow> (r, Ramp self'))"

text \<open>The shapes as their constructors build them.\<close>

definition shapes_init :: "shape list" where
  "shapes_init =
     [Constant ConstantLoad_init, Step StepLoad_init, Spike SpikeLoad_init, Ramp RampLoad_init]"

section \<open>Virtual users\<close>

text \<open>
  \<^verbatim>\<open>SockShopUser\<close> of \<^verbatim>\<open>locustfile.py\<close> and of the per-pattern locust files. The
  repository's code is the task bodies, their \<^verbatim>\<open>@task\<close> weights and \<^verbatim>\<open>on_start\<close>; the loop
  that runs them, the wait between tasks and the HTTP client belong to Locust.

  Every random draw in these files is a call of a function of Python's \<^verbatim>\<open>random\<close> module
  (\<^verbatim>\<open>random.choice\<close>, \<^verbatim>\<open>random.randint\<close>), that is a draw from the one generator the
  module keeps for the whole process. The generator itself is the standard library's: it
  is the parameter \<open>rb\<close>, the library's \<^verbatim>\<open>_randbelow\<close>, which maps the generator's state
  and a bound \<open>n\<close> to a number below \<open>n\<close> and the next state. No file seeds it.
\<close>

type_synonym 'g randbelow = "'g \<Rightarrow> nat \<Rightarrow> nat \<times> 'g"

text \<open>
  \<^verbatim>\<open>random.choice(seq)\<close> is \<^verbatim>\<open>seq[_randbelow(len(seq))]\<close>. The two sequences the tasks
  draw from, \<^verbatim>\<open>tags\<close> and \<^verbatim>\<open>item_ids\<close>, are non-empty constants, and the library's draw
  is below the bound, so the index is in range.
\<close>

definition random_choice :: "'g randbelow \<Rightarrow> 'a list \<Rightarrow> 'g \<Rightarrow> 'a \<times> 'g" where
  "random_choice rb seq g = (case rb g (length seq) of (i, g') \<Rightarrow> (seq ! i, g'))"

text \<open>\<^verbatim>\<open>random.randint(a, b)\<close> is \<^verbatim>\<open>a + _randbelow(b - a + 1)\<close>.\<close>

definition random_randint :: "'g randbelow \<Rightarrow> int \<Rightarrow> int \<Rightarrow> 'g \<Rightarrow> int \<times> 'g" where
  "random_randint rb a b g = (case rb g (nat (b - a + 1)) of (i, g') \<Rightarrow> (a + int i, g'))"

definition item_ids :: "string list" where
  "item_ids =
     [''a0eebc99-9c0b-4ef8-bb6d-6bb9bd380a11'',
      ''3395a43e-5d8d-4d79-ac8c-0d58e637d5e8'',
      ''03fef6c8-7c4f-4f69-8a7d-6e48d4c1db8e'',
      ''d3588630-ad8e-49df-b6f8-5e4f3c0e5e2e'',
      ''510a0d7e-8e83-4193-b483-e27e9ddc34d8'',
      ''808a2de1-1aaa-4c25-a9b9-79a93b77c087'',
      ''819e1fbf-a459-4c89-9e03-9b5d1a5fc1b0'',
      ''zzz4f044-ec42-4f2b-a2d8-7e4b3f4a5c6d'']"

definition tags :: "string list" where
  "tags = [''red'', ''blue'', ''black'', ''white'', ''brown'', ''green'', ''gray'', ''purple'']"

text \<open>
  A request as the task hands it to \<^verbatim>\<open>self.client\<close>: the path, the JSON body of a POST
  (\<^verbatim>\<open>{"id": item_id, "quantity": 1}\<close> as the pair of its two values) and the \<^verbatim>\<open>name\<close>
  under which Locust counts it.
\<close>

type_synonym cart_data = "string \<times> int"

datatype request =
  Get string string
| Post string cart_data string

text \<open>
  The attributes \<^verbatim>\<open>on_start\<close> of the per-pattern files (\<open>Pattern\<close>:
  \<^verbatim>\<open>locustfile_constant.py\<close>, \<^verbatim>\<open>locustfile_step.py\<close>, \<^verbatim>\<open>locustfile_spike.py\<close>,
  \<^verbatim>\<open>locustfile_ramp.py\<close>) gives a user; \<open>session_id\<close> holds the number \<open>n\<close> of the string
  \<^verbatim>\<open>session_n\<close>. In \<^verbatim>\<open>locustfile.py\<close> (\<open>Basic\<close>) \<^verbatim>\<open>on_start\<close> is \<^verbatim>\<open>pass\<close> and no task
  reads or writes an attribute.
\<close>

record SockShopUser =
  session_id :: int
  cart_items :: "string list"
  has_items_in_cart :: bool

datatype locustfile = Basic | Pattern

definition on_start :: "locustfile \<Rightarrow> 'g randbelow \<Rightarrow> SockShopUser \<Rightarrow> 'g \<Rightarrow> SockShopUser \<times> 'g" where
  "on_start f rb self g =
     (case f of
        Basic \<Rightarrow> (self, g)
      | Pattern \<Rightarrow>
          (case random_randint rb 1000 9999 g of
             (n, g') \<Rightarrow>
               (self\<lparr>session_id := n, cart_items := [], has_items_in_cart := False\<rparr>, g')))"

text \<open>
  A task body takes the generator \<open>rb\<close>, the answer of the HTTP client \<open>respond\<close> (the
  status code of the response to a request; Locust's client reports a failed or timed
  out request as a response too, it does not raise), the user and the state of the
  process's generator. It returns the requests it has issued, in order, the user and the
  generator's state after it.
\<close>

type_synonym 'g task_body =
  "'g randbelow \<Rightarrow> (request \<Rightarrow> int) \<Rightarrow> SockShopUser \<Rightarrow> 'g \<Rightarrow> request list \<times> SockShopUser \<times> 'g"

definition browse_home :: "'g task_body" where
  "browse_home rb respond self g = ([Get ''/'' ''browse_home''], self, g)"

definition browse_catalogue :: "'g task_body" where
  "browse_catalogue rb respond self g = ([Get ''/catalogue'' ''browse_catalogue''], self, g)"

definition browse_category :: "'g task_body" where
  "browse_category rb respond self g =
     (case random_choice rb tags g of
        (tag, g') \<Rightarrow> ([Get (''/category.html?tags='' @ tag) ''browse_category''], self, g'))"

definition view_item :: "'g task_body" where
  "view_item rb respond self g =
     (case random_choice rb item_ids g of
        (item_id, g') \<Rightarrow> ([Get (''/detail.html?id='' @ item_id) ''view_item''], self, g'))"

text \<open>\<^verbatim>\<open>add_to_cart\<close> of \<^verbatim>\<open>locustfile.py\<close>: the response is not looked at.\<close>

definition add_to_cart :: "'g task_body" where
  "add_to_cart rb respond self g =
     (case random_choice rb item_ids g of
        (item_id, g') \<Rightarrow>
          let cart_data = (item_id, 1)
          in ([Post ''/cart'' cart_data ''add_to_cart''], self, g'))"

text \<open>
  \<^verbatim>\<open>add_to_cart\<close> of the per-pattern files (\<^verbatim>\<open>locustfile_ramp.py\<close> and its three
  siblings): the item is recorded in the user's cart when the response has status 200.
\<close>

definition add_to_cart_tracked :: "'g task_body" where
  "add_to_cart_tracked rb respond self g =
     (case random_choice rb item_ids g of
        (item_id, g') \<Rightarrow>
          let cart_data = (item_id, 1);
              request = Post ''/cart'' cart_data ''add_to_cart'';
              status_code = respond request
          in if status_code = 200
             then ([request],
                   self\<lparr>cart_items := cart_items self @ [item_id], has_items_in_cart := True\<rparr>, g')
             else ([request], self, g'))"

definition view_cart :: "'g task_body" where
  "view_cart rb respond self g = ([Get ''/basket.html'' ''view_cart''], self, g)"

definition checkout :: "'g task_body" where
  "checkout rb respond self g = ([Get ''/customer-orders.html'' ''checkout''], self, g)"

text \<open>The seven \<^verbatim>\<open>@task\<close> methods and the body each one runs.\<close>

datatype task =
  Browse_home | Browse_catalogue | Browse_category | View_item | Add_to_cart | View_cart | Checkout

fun run_task :: "locustfile \<Rightarrow> task \<Rightarrow> 'g task_body" where
  "run_task f Browse_home = browse_home"
| "run_task f Browse_catalogue = browse_catalogue"
| "run_task f Browse_category = browse_category"
| "run_task f View_item = view_item"
| "run_task Basic Add_to_cart = add_to_cart"
| "run_task Pattern Add_to_cart = add_to_cart_tracked"
| "run_task f View_cart = view_cart"
| "run_task f Checkout = checkout"

text \<open>
  Modelled from the spec: the ActionSelector (4.4), a weighted random draw over the action
  table, and the loop of a VirtualUser (4.3). In the program both are Locust's, not part
  of the repository. Locust lists each task as many times as its \<^verbatim>\<open>@task\<close> weight says, in
  the order in which the class defines the methods (\<open>25 + 20 + 20 + 20 + 10 + 8 + 4 = 107\<close>
  entries), and picks the next task by \<^verbatim>\<open>random.choice\<close> on that list: a draw from the same
  generator of the \<^verbatim>\<open>random\<close> module that the task bodies draw from. A user runs
  \<^verbatim>\<open>on_start\<close> once and then cycles: pick a task, run its body, wait; the wait,
  \<^verbatim>\<open>constant(2)\<close>, draws nothing.
\<close>

definition tasks :: "task list" where
  "tasks =
     replicate 25 Browse_home @ replicate 20 Browse_catalogue @ replicate 20 Browse_category
     @ replicate 20 View_item @ replicate 10 Add_to_cart @ replicate 8 View_cart
     @ replicate 4 Checkout"

definition get_next_task :: "'g randbelow \<Rightarrow> 'g \<Rightarrow> task \<times> 'g" where
  "get_next_task rb g = random_choice rb tasks g"

definition run_cycle :: "locustfile \<Rightarrow> 'g task_body" where
  "run_cycle f rb respond self g =
     (case get_next_task rb g of (t, g') \<Rightarrow> run_task f t rb respond self g')"

text \<open>
  The cycles of a user, each given with the way the server answers during it, and the
  whole session of a user: \<^verbatim>\<open>on_start\<close>, then the cycles.
\<close>

fun run_cycles ::
  "locustfile \<Rightarrow> 'g randbelow \<Rightarrow> (request \<Rightarrow> int) list \<Rightarrow> SockShopUser \<Rightarrow> 'g
   \<Rightarrow> request list \<times> SockShopUser \<times> 'g" where
  "run_cycles f rb [] self g = ([], self, g)"
| "run_cycles f rb (respond # cycles) self g =
     (case run_cycle f rb respond self g of
        (requests, self', g') \<Rightarrow>
          (case run_cycles f rb cycles self' g' of
             (requests', self'', g'') \<Rightarrow> (requests @ requests', self'', g'')))"

definition run_user ::
  "locustfile \<Rightarrow> 'g randbelow \<Rightarrow> (request \<Rightarrow> int) list \<Rightarrow> SockShopUser \<Rightarrow> 'g
   \<Rightarrow> request list \<times> SockShopUser \<times> 'g" where
  "run_user f rb cycles self g =
     (case on_start f rb self g of (self', g') \<Rightarrow> run_cycles f rb cycles self' g')"

text \<open>
  Several users in one process. An event is the \<^verbatim>\<open>on_start\<close> of the user with the given
  number or one cycle of that user; the events are listed in the order in which they
  run. Users run as greenlets, which give way to each other only while a request or a
  wait is pending, so the draws of an event are not interleaved with those of another.
  All events draw from the same generator state.
\<close>

datatype event = Start nat | Cycle nat "request \<Rightarrow> int"

fun run_events ::
  "locustfile \<Rightarrow> 'g randbelow \<Rightarrow> event list \<Rightarrow> (nat \<Rightarrow> SockShopUser) \<Rightarrow> 'g
   \<Rightarrow> (nat \<times> request) list \<times> (nat \<Rightarrow> SockShopUser) \<times> 'g" where
  "run_events f rb [] users g = ([], users, g)"
| "run_events f rb (Start uid # events) users g =
     (case on_start f rb (users uid) g of
        (self', g') \<Rightarrow> run_events f rb events (users(uid := self')) g')"
| "run_events f rb (Cycle uid respond # events) users g =
     (case run_cycle f rb respond (users uid) g of
        (requests, self', g') \<Rightarrow>
          (case run_events f rb events (users(uid := self')) g' of
             (sent, users', g'') \<Rightarrow> (map (Pair uid) requests @ sent, users', g'')))"

definition requests_of :: "nat \<Rightarrow> (nat \<times> request) list \<Rightarrow> request list" where
  "requests_of uid sent = map snd (filter (\<lambda>(u, r). u = uid) sent)"

text \<open>What an event does, without the user that does it.\<close>

fun event_is_start :: "event \<Rightarrow> bool" where
  "event_is_start (Start uid) = True"
| "event_is_start (Cycle uid respond) = False"

text \<open>A generator for concrete runs: a counter, whose draw below \<open>n\<close> is its state modulo \<open>n\<close>.\<close>

definition counter_randbelow :: "nat randbelow" where
  "counter_randbelow g n = (g mod n, Suc g)"

text \<open>A user as the per-pattern \<^verbatim>\<open>on_start\<close> leaves it when the draw is 0.\<close>

definition new_user :: SockShopUser where
  "new_user = \<lparr>session_id = 1000, cart_items = [], has_items_in_cart = False\<rparr>"

definition fresh_users :: "nat \<Rightarrow> SockShopUser" where
  "fresh_users uid = new_user"

text \<open>Two servers: one answers every request with status 200, one with status 500.\<close>

definition respond_ok :: "request \<Rightarrow> int" where
  "respond_ok r = 200"

definition respond_error :: "request \<Rightarrow> int" where
  "respond_error r = 500"

section \<open>Schedules as the specification describes them\<close>

text \<open>
  The specification speaks of the phases a Step schedule has reached, of the windows of a
  Spike schedule and of well-formed schedules. These notions are not functions of the
  source; they follow the specification's words and are what the source's loops are
  compared with.
\<close>

text \<open>The phases whose \<open>start_offset\<close> is at most the elapsed time, in schedule order.\<close>

definition step_reached :: "real \<Rightarrow> (int \<times> int \<times> int) list \<Rightarrow> (int \<times> int \<times> int) list" where
  "step_reached t ps = filter (\<lambda>(start_offset, target_population, rate). of_int start_offset \<le> t) ps"

text \<open>
  The last phase whose \<open>start_offset \<le> elapsed\<close>; the default directive when no phase has
  been reached.
\<close>

definition spec_step_directive :: "real \<Rightarrow> (int \<times> int \<times> int) list \<Rightarrow> directive" where
  "spec_step_directive t ps =
     (if step_reached t ps = [] then (50, 5) else snd (last (step_reached t ps)))"

text \<open>A spike window \<open>[start, start + window)\<close> and its peak population.\<close>

definition in_window :: "real \<Rightarrow> int \<times> int \<times> int \<Rightarrow> bool" where
  "in_window t w =
     (case w of (start, window, peak) \<Rightarrow> of_int start \<le> t \<and> t < of_int (start + window))"

definition window_peak :: "int \<times> int \<times> int \<Rightarrow> int" where
  "window_peak w = (case w of (start, window, peak) \<Rightarrow> peak)"

text \<open>Two windows overlap when some instant lies in both.\<close>

definition windows_overlap :: "int \<times> int \<times> int \<Rightarrow> int \<times> int \<times> int \<Rightarrow> bool" where
  "windows_overlap w1 w2 =
     (case w1 of (s1, d1, p1) \<Rightarrow> case w2 of (s2, d2, p2) \<Rightarrow>
        s1 < s2 + d2 \<and> s2 < s1 + d1 \<and> 0 < d1 \<and> 0 < d2)"

fun windows_disjoint :: "(int \<times> int \<times> int) list \<Rightarrow> bool" where
  "windows_disjoint [] = True"
| "windows_disjoint (w # ws) = (list_all (\<lambda>w'. \<not> windows_overlap w w') ws \<and> windows_disjoint ws)"

text \<open>
  A well-formed Step schedule: start offsets strictly increasing, target populations
  non-negative, spawn rates positive.
\<close>

definition offsets_increasing :: "(int \<times> int \<times> int) list \<Rightarrow> bool" where
  "offsets_increasing ps = sorted_wrt (<) (map fst ps)"

definition step_schedule_valid :: "(int \<times> int \<times> int) list \<Rightarrow> bool" where
  "step_schedule_valid ps =
     (offsets_increasing ps \<and>
      list_all (\<lambda>(start_offset, target_population, rate). 0 \<le> target_population \<and> 0 < rate) ps)"

section \<open>Properties of the load shapes\<close>

subsection \<open>Rounding to a double\<close>

lemma round_half_even_of_int: "round_half_even (of_int n) = n"
  by (simp add: round_half_even_def)

lemma round_half_even_cases:
  "(round_half_even x = \<lfloor>x\<rfloor> \<and> x - of_int \<lfloor>x\<rfloor> \<le> 1 / 2)
   \<or> (round_half_even x = \<lfloor>x\<rfloor> + 1 \<and> 1 / 2 \<le> x - of_int \<lfloor>x\<rfloor>)"
  unfolding round_half_even_def Let_def by (auto simp: not_less)

lemma round_half_even_bounds:
  "x - 1 / 2 \<le> of_int (round_half_even x)" "of_int (round_half_even x) \<le> x + 1 / 2"
proof -
  have a: "of_int \<lfloor>x\<rfloor> \<le> x" and b: "x < of_int \<lfloor>x\<rfloor> + 1" by linarith+
  from round_half_even_cases [of x] show "x - 1 / 2 \<le> of_int (round_half_even x)"
  proof (elim disjE conjE)
    assume "round_half_even x = \<lfloor>x\<rfloor>" "x - of_int \<lfloor>x\<rfloor> \<le> 1 / 2"
    then show ?thesis by simp
  next
    assume "round_half_even x = \<lfloor>x\<rfloor> + 1"
    then have "real_of_int (round_half_even x) = of_int \<lfloor>x\<rfloor> + 1" by simp
    with b show ?thesis by linarith
  qed
  from round_half_even_cases [of x] show "of_int (round_half_even x) \<le> x + 1 / 2"
  proof (elim disjE conjE)
    assume "round_half_even x = \<lfloor>x\<rfloor>"
    then have "real_of_int (round_half_even x) = of_int \<lfloor>x\<rfloor>" by simp
    with a show ?thesis by linarith
  next
    assume "round_half_even x = \<lfloor>x\<rfloor> + 1" "1 / 2 \<le> x - of_int \<lfloor>x\<rfloor>"
    then show ?thesis by simp
  qed
qed

lemma round_half_even_eqI:
  assumes "\<bar>x - of_int m\<bar> < 1 / 2"
  shows "round_half_even x = m"
proof -
  from assms have lo: "of_int m - 1 / 2 < x" and hi: "x < of_int m + 1 / 2" by linarith+
  show ?thesis
  proof (cases "of_int m \<le> x")
    case True
    with hi have f: "\<lfloor>x\<rfloor> = m" by (intro floor_unique) linarith+
    with hi show ?thesis by (simp add: round_half_even_def Let_def)
  next
    case False
    with lo have f: "\<lfloor>x\<rfloor> = m - 1" by (intro floor_unique) (simp, linarith)+
    with lo False show ?thesis by (simp add: round_half_even_def Let_def)
  qed
qed

lemma round_half_even_mono:
  assumes "x \<le> y"
  shows "round_half_even x \<le> round_half_even y"
proof -
  from assms have fm: "\<lfloor>x\<rfloor> \<le> \<lfloor>y\<rfloor>" by (rule floor_mono)
  have rx: "round_half_even x \<le> \<lfloor>x\<rfloor> + 1" and ry: "\<lfloor>y\<rfloor> \<le> round_half_even y"
    by (simp_all add: round_half_even_def Let_def)
  show ?thesis
  proof (cases "\<lfloor>x\<rfloor> = \<lfloor>y\<rfloor>")
    case True
    with assms show ?thesis by (auto simp: round_half_even_def Let_def)
  next
    case False
    with fm have "\<lfloor>x\<rfloor> + 1 \<le> \<lfloor>y\<rfloor>" by simp
    with rx ry show ?thesis by linarith
  qed
qed

lemma floor_log2_eq:
  assumes "0 < x"
  shows "\<lfloor>log 2 x\<rfloor> = k \<longleftrightarrow> 2 powi k \<le> x \<and> x < 2 powi (k + 1)"
proof -
  have "(2::real) powr of_int k = 2 powi k"
    by (simp add: powr_real_of_int')
  moreover have "(2::real) powr (of_int k + 1) = 2 powi (k + 1)"
    using powr_real_of_int' [of "2::real" "k + 1"] by simp
  ultimately show ?thesis using floor_log_eq_powr_iff [OF assms, of 2 k] by simp
qed

lemma float_exponent_upper:
  assumes "0 < x"
  shows "x < 2 powi (float_exponent x + 1)"
proof -
  from floor_log2_eq [OF assms, of "\<lfloor>log 2 x\<rfloor>"] have "x < 2 powi (\<lfloor>log 2 x\<rfloor> + 1)" by simp
  also have "\<dots> \<le> 2 powi (float_exponent x + 1)"
    using assms by (intro power_int_increasing) (simp_all add: float_exponent_def)
  finally show ?thesis .
qed

lemma float_exponent_lower:
  assumes "0 < x" "- 1022 < float_exponent x"
  shows "2 powi (float_exponent x) \<le> x"
proof -
  from assms have "float_exponent x = \<lfloor>log 2 x\<rfloor>" by (simp add: float_exponent_def max_def split: if_splits)
  with floor_log2_eq [OF assms(1), of "\<lfloor>log 2 x\<rfloor>"] show ?thesis by simp
qed

lemma float_exponent_eqI:
  assumes "0 < x" "2 powi e \<le> x" "x < 2 powi (e + 1)" "- 1022 \<le> e"
  shows "float_exponent x = e"
proof -
  from floor_log2_eq [OF assms(1), of e] assms(2,3) have "\<lfloor>log 2 x\<rfloor> = e" by simp
  with assms(1,4) show ?thesis by (simp add: float_exponent_def)
qed

lemma float_exponent_mono:
  assumes "0 < x" "x \<le> y"
  shows "float_exponent x \<le> float_exponent y"
proof -
  from assms have "log 2 x \<le> log 2 y" by simp
  then have "\<lfloor>log 2 x\<rfloor> \<le> \<lfloor>log 2 y\<rfloor>" by (rule floor_mono)
  with assms show ?thesis by (simp add: float_exponent_def)
qed

lemma ulp_pos: "0 < ulp x"
  by (simp add: ulp_def)

lemma float_round_upper:
  assumes "0 < x"
  shows "float_round x \<le> 2 powi (float_exponent x + 1)"
proof -
  have "x / ulp x < 2 powi (float_exponent x + 1) / ulp x"
    using float_exponent_upper [OF assms] ulp_pos [of x] by (simp add: divide_strict_right_mono)
  also have "2 powi (float_exponent x + 1) / ulp x = (2::real) powi 53"
    by (simp add: ulp_def power_int_diff [symmetric])
  finally have "x / ulp x \<le> of_int (2 ^ 53)" by simp
  then have "round_half_even (x / ulp x) \<le> round_half_even (of_int (2 ^ 53))"
    by (rule round_half_even_mono)
  then have "round_half_even (x / ulp x) \<le> 2 ^ 53" by (simp only: round_half_even_of_int)
  then have "(of_int (round_half_even (x / ulp x)) :: real) \<le> of_int (2 ^ 53)"
    by (simp only: of_int_le_iff)
  then have "of_int (round_half_even (x / ulp x)) * ulp x \<le> of_int (2 ^ 53) * ulp x"
    using ulp_pos [of x] by (simp only: mult_le_cancel_right_pos)
  also have "of_int (2 ^ 53) * ulp x = 2 powi (float_exponent x + 1)"
    by (simp add: ulp_def power_int_diff power_int_add)
  finally show ?thesis using assms by (simp add: float_round_def)
qed

lemma float_round_lower:
  assumes "0 < x" "- 1022 < float_exponent x"
  shows "2 powi (float_exponent x) \<le> float_round x"
proof -
  have "2 powi (float_exponent x) / ulp x \<le> x / ulp x"
    using float_exponent_lower [OF assms] ulp_pos [of x] by (simp add: divide_right_mono)
  moreover have "2 powi (float_exponent x) / ulp x = (2::real) powi 52"
    by (simp add: ulp_def power_int_diff [symmetric])
  ultimately have "of_int (2 ^ 52) \<le> x / ulp x" by simp
  then have "round_half_even (of_int (2 ^ 52)) \<le> round_half_even (x / ulp x)"
    by (rule round_half_even_mono)
  then have "2 ^ 52 \<le> round_half_even (x / ulp x)" by (simp only: round_half_even_of_int)
  then have "(of_int (2 ^ 52) :: real) \<le> of_int (round_half_even (x / ulp x))"
    by (simp only: of_int_le_iff)
  then have "of_int (2 ^ 52) * ulp x \<le> of_int (round_half_even (x / ulp x)) * ulp x"
    using ulp_pos [of x] by (simp only: mult_le_cancel_right_pos)
  moreover have "of_int (2 ^ 52) * ulp x = 2 powi (float_exponent x)"
    by (simp add: ulp_def power_int_diff)
  ultimately show ?thesis using assms by (simp add: float_round_def)
qed

lemma float_round_nonneg:
  assumes "0 \<le> x"
  shows "0 \<le> float_round x"
proof (cases "x = 0")
  case True
  then show ?thesis by (simp add: float_round_def)
next
  case False
  with assms have "0 \<le> x / ulp x" using ulp_pos [of x] by simp
  then have "round_half_even (of_int 0) \<le> round_half_even (x / ulp x)"
    by (intro round_half_even_mono) simp
  then have "0 \<le> round_half_even (x / ulp x)" by (simp only: round_half_even_of_int)
  then show ?thesis using ulp_pos [of x] False by (simp add: float_round_def)
qed

lemma float_round_mono:
  assumes "0 \<le> x" "x \<le> y"
  shows "float_round x \<le> float_round y"
proof (cases "x = 0")
  case True
  with assms float_round_nonneg [of y] show ?thesis by (simp add: float_round_def)
next
  case False
  with assms have x: "0 < x" and y: "0 < y" by simp_all
  from float_exponent_mono [OF x assms(2)] have le: "float_exponent x \<le> float_exponent y" .
  show ?thesis
  proof (cases "float_exponent x = float_exponent y")
    case True
    then have u: "ulp x = ulp y" by (simp add: ulp_def)
    from assms(2) have "x / ulp y \<le> y / ulp y" using ulp_pos [of y] by (simp add: divide_right_mono)
    then have "round_half_even (x / ulp y) \<le> round_half_even (y / ulp y)"
      by (rule round_half_even_mono)
    then have "(of_int (round_half_even (x / ulp y)) :: real) \<le> of_int (round_half_even (y / ulp y))"
      by (simp only: of_int_le_iff)
    then have "of_int (round_half_even (x / ulp y)) * ulp y \<le> of_int (round_half_even (y / ulp y)) * ulp y"
      using ulp_pos [of y] by (simp only: mult_le_cancel_right_pos)
    with x y u show ?thesis by (simp add: float_round_def)
  next
    case False
    with le have lt: "float_exponent x + 1 \<le> float_exponent y" by simp
    have "- 1022 \<le> float_exponent x" by (simp add: float_exponent_def)
    with lt have "- 1022 < float_exponent y" by simp
    from float_round_lower [OF y this] have "2 powi (float_exponent y) \<le> float_round y" .
    moreover have "(2::real) powi (float_exponent x + 1) \<le> 2 powi (float_exponent y)"
      using lt by (intro power_int_increasing) simp_all
    moreover note float_round_upper [OF x]
    ultimately show ?thesis by linarith
  qed
qed

lemma float_round_eqI:
  assumes "0 < x" "2 powi e \<le> x" "x < 2 powi (e + 1)" "- 1022 \<le> e"
    and "\<bar>x / 2 powi (e - 52) - of_int m\<bar> < 1 / 2"
  shows "float_round x = of_int m * 2 powi (e - 52)"
proof -
  from float_exponent_eqI [OF assms(1-4)] have "ulp x = 2 powi (e - 52)" by (simp add: ulp_def)
  with round_half_even_eqI [OF assms(5)] assms(1) show ?thesis by (simp add: float_round_def)
qed

lemma float_round_of_int:
  assumes "0 \<le> n" "n < 2 ^ 53"
  shows "float_round (of_int n) = of_int n"
proof (cases "n = 0")
  case True
  then show ?thesis by (simp add: float_round_def)
next
  case False
  with assms have pos: "0 < (of_int n :: real)" by simp
  define e where "e = float_exponent (of_int n)"
  from False assms have "(1::real) \<le> of_int n" by simp
  then have "0 \<le> log 2 (of_int n)" by simp
  then have "0 \<le> \<lfloor>log 2 (of_int n)\<rfloor>" by simp
  moreover from pos have "\<bar>of_int n\<bar> = (of_int n :: real)" by simp
  ultimately have e0: "0 \<le> e" by (simp add: e_def float_exponent_def)
  then have "- 1022 < e" by simp
  from float_exponent_lower [OF pos] this have "2 powi e \<le> (of_int n :: real)" by (simp add: e_def)
  also from assms have "(of_int n :: real) < 2 powi 53" by (simp flip: of_int_less_iff)
  finally have "(2::real) powi e < 2 powi 53" .
  then have e53: "e < 53" by (rule power_int_le_imp_less_exp [rotated]) simp_all
  define k where "k = nat (52 - e)"
  from e53 have k: "int k = 52 - e" by (simp add: k_def)
  have u: "ulp (of_int n) = 1 / 2 ^ k"
  proof -
    have "ulp (of_int n) = 2 powi (- int k)" using k by (simp add: ulp_def e_def)
    also have "\<dots> = 1 / 2 ^ k" by (simp add: power_int_minus field_simps)
    finally show ?thesis .
  qed
  have "of_int n / ulp (of_int n) = (of_int (n * 2 ^ k) :: real)" by (simp add: u)
  then have "round_half_even (of_int n / ulp (of_int n)) = n * 2 ^ k"
    by (simp only: round_half_even_of_int)
  with pos show ?thesis by (simp add: float_round_def u)
qed

lemma float_round_error:
  assumes "0 < x" "x < 2 powi (e + 1)" "- 1022 \<le> e"
  shows "\<bar>float_round x - x\<bar> \<le> 2 powi (e - 53)"
proof -
  have "float_exponent x \<le> e"
  proof (rule ccontr)
    assume "\<not> float_exponent x \<le> e"
    then have lt: "e + 1 \<le> float_exponent x" by simp
    with assms(3) have "- 1022 < float_exponent x" by simp
    from float_exponent_lower [OF assms(1) this] have "2 powi float_exponent x \<le> x" .
    moreover have "(2::real) powi (e + 1) \<le> 2 powi float_exponent x"
      using lt by (intro power_int_increasing) simp_all
    ultimately show False using assms(2) by linarith
  qed
  then have u: "ulp x \<le> 2 powi (e - 52)"
    unfolding ulp_def by (intro power_int_increasing) simp_all
  have h: "(2::real) powi (e - 52) = 2 * 2 powi (e - 53)"
  proof -
    have "(2::real) powi (1 + (e - 53)) = 2 powi 1 * 2 powi (e - 53)" by (rule power_int_add) simp
    then show ?thesis by simp
  qed
  let ?y = "x / ulp x"
  from round_half_even_bounds [of ?y] have "\<bar>of_int (round_half_even ?y) - ?y\<bar> \<le> 1 / 2" by linarith
  then have "\<bar>of_int (round_half_even ?y) - ?y\<bar> * ulp x \<le> 1 / 2 * ulp x"
    using ulp_pos [of x] by (simp only: mult_le_cancel_right_pos)
  moreover have "\<bar>of_int (round_half_even ?y) - ?y\<bar> * ulp x = \<bar>float_round x - x\<bar>"
  proof -
    have "\<bar>of_int (round_half_even ?y) - ?y\<bar> * ulp x = \<bar>(of_int (round_half_even ?y) - ?y) * ulp x\<bar>"
      using ulp_pos [of x] by (simp add: abs_mult)
    also have "(of_int (round_half_even ?y) - ?y) * ulp x = float_round x - x"
      using ulp_pos [of x] assms(1) by (simp add: float_round_def left_diff_distrib)
    finally show ?thesis .
  qed
  ultimately have "\<bar>float_round x - x\<bar> \<le> 1 / 2 * ulp x" by simp
  with u h show ?thesis by linarith
qed

lemma float_round_error0:
  assumes "0 \<le> x" "x < 2 powi (e + 1)" "- 1022 \<le> e"
  shows "\<bar>float_round x - x\<bar> \<le> 2 powi (e - 53)"
proof (cases "x = 0")
  case True
  then show ?thesis by (simp add: float_round_def)
next
  case False
  with assms(1) have "0 < x" by simp
  from float_round_error [OF this assms(2,3)] show ?thesis .
qed

lemma float_round_small_ints:
  "float_round 0 = 0" "float_round 1 = 1" "float_round 10 = 10" "float_round 140 = 140"
  "float_round 150 = 150" "float_round 180 = 180" "float_round 300 = 300" "float_round 420 = 420"
  using float_round_of_int [of 0] float_round_of_int [of 1] float_round_of_int [of 10]
    float_round_of_int [of 140] float_round_of_int [of 150] float_round_of_int [of 180]
    float_round_of_int [of 300] float_round_of_int [of 420]
  by simp_all

subsection \<open>The loops of StepLoad and SpikeLoad\<close>

lemma StepLoad_scan_sorted:
  "sorted (map fst ps) \<Longrightarrow>
   StepLoad_scan t d ps = (if step_reached t ps = [] then d else snd (last (step_reached t ps)))"
proof (induction ps arbitrary: d)
  case Nil
  then show ?case by (simp add: step_reached_def)
next
  case (Cons p ps)
  obtain s u r where p: "p = (s, u, r)" by (cases p)
  from Cons.prems have srt: "sorted (map fst ps)" and le: "\<forall>q \<in> set ps. s \<le> fst q"
    by (auto simp: p)
  show ?case
  proof (cases "of_int s \<le> t")
    case True
    then show ?thesis using Cons.IH [OF srt, of "(u, r)"]
      by (simp add: p step_reached_def)
  next
    case False
    have "\<forall>q \<in> set ps. \<not> of_int (fst q) \<le> t"
    proof
      fix q assume "q \<in> set ps"
      with le have "s \<le> fst q" by blast
      then have "(of_int s :: real) \<le> of_int (fst q)" by simp
      with False show "\<not> of_int (fst q) \<le> t" by linarith
    qed
    then have "filter (\<lambda>(start_offset, target_population, rate). of_int start_offset \<le> t) ps = []"
      by (auto simp: filter_empty_conv)
    with False show ?thesis by (simp add: p step_reached_def)
  qed
qed

lemma in_window_overlap:
  "in_window t w \<Longrightarrow> in_window t w' \<Longrightarrow> windows_overlap w w'"
proof -
  assume a: "in_window t w" and b: "in_window t w'"
  obtain s1 d1 p1 where w: "w = (s1, d1, p1)" by (cases w)
  obtain s2 d2 p2 where w': "w' = (s2, d2, p2)" by (cases w')
  from a have a1: "real_of_int s1 \<le> t" and a2: "t < real_of_int (s1 + d1)"
    by (simp_all add: in_window_def w)
  from b have b1: "real_of_int s2 \<le> t" and b2: "t < real_of_int (s2 + d2)"
    by (simp_all add: in_window_def w')
  from a1 b2 have "real_of_int s1 < real_of_int (s2 + d2)" by linarith
  then have c1: "s1 < s2 + d2" by (simp only: of_int_less_iff)
  from b1 a2 have "real_of_int s2 < real_of_int (s1 + d1)" by linarith
  then have c2: "s2 < s1 + d1" by (simp only: of_int_less_iff)
  from a1 a2 have "real_of_int s1 < real_of_int (s1 + d1)" by linarith
  then have c3: "0 < d1" by simp
  from b1 b2 have "real_of_int s2 < real_of_int (s2 + d2)" by linarith
  then have c4: "0 < d2" by simp
  from c1 c2 c3 c4 show ?thesis by (simp add: windows_overlap_def w w')
qed

lemma SpikeLoad_scan_outside:
  "(\<forall>w \<in> set ws. \<not> in_window t w) \<Longrightarrow> SpikeLoad_scan t ws = None"
proof (induction ws)
  case Nil
  then show ?case by simp
next
  case (Cons v ws)
  obtain s d p where v: "v = (s, d, p)" by (cases v)
  from Cons.prems have "\<not> in_window t (s, d, p)" by (simp add: v)
  then have "\<not> (of_int s \<le> t \<and> t < of_int (s + d))" by (simp add: in_window_def)
  moreover from Cons have "SpikeLoad_scan t ws = None" by simp
  ultimately show ?case by (simp add: v)
qed

lemma SpikeLoad_scan_inside:
  "windows_disjoint ws \<Longrightarrow> w \<in> set ws \<Longrightarrow> in_window t w \<Longrightarrow>
   SpikeLoad_scan t ws = Some (window_peak w, 20)"
proof (induction ws)
  case Nil
  then show ?case by simp
next
  case (Cons v ws)
  obtain s d p where v: "v = (s, d, p)" by (cases v)
  show ?case
  proof (cases "w = v")
    case True
    with Cons.prems(3) have "in_window t (s, d, p)" by (simp add: v)
    then have "of_int s \<le> t \<and> t < of_int (s + d)" by (simp add: in_window_def)
    moreover have "window_peak w = p" using True by (simp add: v window_peak_def)
    ultimately show ?thesis by (simp add: v)
  next
    case False
    with Cons.prems have mem: "w \<in> set ws" by simp
    from Cons.prems(1) have dj: "windows_disjoint ws" and no: "\<not> windows_overlap v w"
      using mem by (auto simp: list_all_iff)
    from no in_window_overlap [of t v w] Cons.prems(3) have "\<not> in_window t v" by blast
    then have "\<not> (of_int s \<le> t \<and> t < of_int (s + d))" by (simp add: v in_window_def)
    then have "SpikeLoad_scan t (v # ws) = SpikeLoad_scan t ws"
      by (auto simp: v)
    with Cons.IH [OF dj mem Cons.prems(3)] show ?thesis by simp
  qed
qed

subsection \<open>The phases of the built-in RampLoad\<close>

lemma float_of_small_ints:
  "float_of_int 10 = 10" "float_of_int 140 = 140" "float_of_int 150 = 150"
  "float_of_int 180 = 180" "float_of_int 300 = 300" "float_of_int 420 = 420"
  by (simp_all add: float_of_int_def float_round_small_ints)

lemma RampLoad_init_up:
  assumes "t \<le> 300"
  shows "fst (RampLoad_tick RampLoad_init t) = Inr (Some (py_int (ramp_up_value t), 10))"
  using assms by (simp add: RampLoad_tick_def RampLoad_init_def ramp_up_value_def Let_def)

lemma RampLoad_init_peak:
  assumes "300 < t" "t \<le> 420"
  shows "fst (RampLoad_tick RampLoad_init t) = Inr (Some (150, 5))"
  using assms by (simp add: RampLoad_tick_def RampLoad_init_def Let_def)

lemma RampLoad_init_down:
  assumes "420 < t" "t < 600"
  shows "fst (RampLoad_tick RampLoad_init t) = Inr (Some (py_int (ramp_down_value t), 8))"
  using assms by (simp add: RampLoad_tick_def RampLoad_init_def ramp_down_value_def Let_def)

lemma RampLoad_init_terminal:
  assumes "600 \<le> t"
  shows "fst (RampLoad_tick RampLoad_init t) = Inr None"
  using assms by (simp add: RampLoad_tick_def RampLoad_init_def)

lemma progress_bounds:
  assumes "0 \<le> x" "x \<le> d" "0 < d"
  shows "0 \<le> float_truediv x d" "float_truediv x d \<le> 1"
proof -
  from assms have q: "0 \<le> x / d" "x / d \<le> 1" by simp_all
  from float_round_nonneg [OF q(1)] show "0 \<le> float_truediv x d" by (simp add: float_truediv_def)
  from float_round_mono [OF q] show "float_truediv x d \<le> 1"
    by (simp add: float_truediv_def float_round_small_ints)
qed

lemma scaled_progress_bounds:
  assumes "0 \<le> p" "p \<le> 1"
  shows "0 \<le> float_mul 140 p" "float_mul 140 p \<le> 140"
proof -
  from assms have q: "0 \<le> 140 * p" "140 * p \<le> 140" by simp_all
  from float_round_nonneg [OF q(1)] show "0 \<le> float_mul 140 p" by (simp add: float_mul_def)
  from float_round_mono [OF q] show "float_mul 140 p \<le> 140"
    by (simp add: float_mul_def float_round_small_ints)
qed

lemma ramp_up_value_bounds:
  assumes "0 \<le> t" "t \<le> 300"
  shows "10 \<le> ramp_up_value t" "ramp_up_value t \<le> 150"
proof -
  let ?p = "float_truediv t 300"
  let ?w = "float_mul 140 ?p"
  from progress_bounds [OF assms] have p: "0 \<le> ?p" "?p \<le> 1" by simp_all
  from scaled_progress_bounds [OF p] have w: "0 \<le> ?w" "?w \<le> 140" .
  have v: "ramp_up_value t = float_round (10 + ?w)"
    by (simp add: ramp_up_value_def float_of_small_ints float_add_def)
  from w have "(10::real) \<le> 10 + ?w" by simp
  from float_round_mono [OF _ this] show "10 \<le> ramp_up_value t"
    by (simp add: v float_round_small_ints)
  from w have "0 \<le> 10 + ?w" "10 + ?w \<le> 150" by simp_all
  from float_round_mono [OF this] show "ramp_up_value t \<le> 150"
    by (simp add: v float_round_small_ints)
qed

lemma ramp_up_value_mono:
  assumes "0 \<le> t" "t \<le> t'"
  shows "ramp_up_value t \<le> ramp_up_value t'"
proof -
  from assms have "0 \<le> t / 300" "t / 300 \<le> t' / 300" by simp_all
  from float_round_mono [OF this] float_round_nonneg [OF this(1)]
  have p: "float_round (t / 300) \<le> float_round (t' / 300)" "0 \<le> float_round (t / 300)" .
  then have "0 \<le> 140 * float_round (t / 300)"
    "140 * float_round (t / 300) \<le> 140 * float_round (t' / 300)" by simp_all
  from float_round_mono [OF this] float_round_nonneg [OF this(1)]
  have w: "float_round (140 * float_round (t / 300)) \<le> float_round (140 * float_round (t' / 300))"
    "0 \<le> float_round (140 * float_round (t / 300))" .
  then have "0 \<le> 10 + float_round (140 * float_round (t / 300))"
    "10 + float_round (140 * float_round (t / 300)) \<le> 10 + float_round (140 * float_round (t' / 300))"
    by simp_all
  from float_round_mono [OF this] show ?thesis
    by (simp add: ramp_up_value_def float_of_small_ints float_add_def float_mul_def float_truediv_def)
qed

lemma ramp_down_value_bounds:
  assumes "420 < t" "t < 600"
  shows "10 \<le> ramp_down_value t" "ramp_down_value t \<le> 150"
proof -
  let ?d = "float_sub t 420"
  let ?p = "float_truediv ?d 180"
  let ?w = "float_mul 140 ?p"
  from assms have "0 \<le> t - 420" "t - 420 \<le> 180" by simp_all
  from float_round_nonneg [OF this(1)] float_round_mono [OF this]
  have d: "0 \<le> ?d" "?d \<le> 180" by (simp_all add: float_sub_def float_round_small_ints)
  from progress_bounds [OF d] have p: "0 \<le> ?p" "?p \<le> 1" by simp_all
  from scaled_progress_bounds [OF p] have w: "0 \<le> ?w" "?w \<le> 140" .
  have v: "ramp_down_value t = float_round (150 - ?w)"
    by (simp add: ramp_down_value_def float_of_small_ints float_sub_def)
  from w have "(10::real) \<le> 150 - ?w" by simp
  from float_round_mono [OF _ this] show "10 \<le> ramp_down_value t"
    by (simp add: v float_round_small_ints)
  from w have "0 \<le> 150 - ?w" "150 - ?w \<le> 150" by simp_all
  from float_round_mono [OF this] show "ramp_down_value t \<le> 150"
    by (simp add: v float_round_small_ints)
qed

lemma py_int_bounds:
  assumes "10 \<le> x" "x \<le> 150"
  shows "10 \<le> py_int x" "py_int x \<le> 150" "py_int x = \<lfloor>x\<rfloor>"
proof -
  from assms show "py_int x = \<lfloor>x\<rfloor>" by (simp add: py_int_def)
  from assms show "10 \<le> py_int x" by (simp add: py_int_def le_floor_iff)
  from assms(2) have "\<lfloor>x\<rfloor> \<le> \<lfloor>150::real\<rfloor>" by (rule floor_mono)
  with assms show "py_int x \<le> 150" by (simp add: py_int_def)
qed

lemma ramp_up_value_ends: "ramp_up_value 0 = 10" "ramp_up_value 300 = 150"
  by (simp_all add: ramp_up_value_def float_of_small_ints float_truediv_def float_mul_def
      float_add_def float_round_small_ints)

lemma ramp_up_value_error:
  assumes "0 \<le> t" "t \<le> 300"
  shows "\<bar>ramp_up_value t - (10 + 140 * (t / 300))\<bar> < 1"
proof -
  let ?p = "float_round (t / 300)"
  let ?w = "float_round (140 * ?p)"
  let ?v = "float_round (10 + ?w)"
  from assms have q: "0 \<le> t / 300" "t / 300 \<le> 1" by simp_all
  from progress_bounds [OF assms] have p: "0 \<le> ?p" "?p \<le> 1" by (simp_all add: float_truediv_def)
  from scaled_progress_bounds [OF p] have w: "0 \<le> ?w" "?w \<le> 140" by (simp_all add: float_mul_def)
  have e1: "\<bar>?p - t / 300\<bar> \<le> 2 powi (0 - 53)"
    using q by (intro float_round_error0) simp_all
  have e2: "\<bar>?w - 140 * ?p\<bar> \<le> 2 powi (7 - 53)"
    using p by (intro float_round_error0) simp_all
  have e3: "\<bar>?v - (10 + ?w)\<bar> \<le> 2 powi (7 - 53)"
    using w by (intro float_round_error0) simp_all
  have c1: "(2::real) powi (0 - 53) \<le> 1 / 1000" and c2: "(2::real) powi (7 - 53) \<le> 1 / 1000"
    by simp_all
  have v: "ramp_up_value t = ?v"
    by (simp add: ramp_up_value_def float_of_small_ints float_add_def float_mul_def float_truediv_def)
  from e1 c1 have "\<bar>?p - t / 300\<bar> \<le> 1 / 1000" by linarith
  then have "\<bar>140 * ?p - 140 * (t / 300)\<bar> \<le> 140 / 1000" by linarith
  with e2 e3 c2 show ?thesis unfolding v by linarith
qed

text \<open>The float operations at some run times, each rounding step by step.\<close>

lemma ramp_up_value_30: "ramp_up_value 30 = 24"
proof -
  have p: "float_truediv 30 300 = 3602879701896397 / 36028797018963968"
    unfolding float_truediv_def using float_round_eqI [of "30 / 300" "- 4" 7205759403792794] by simp
  have w: "float_mul 140 (3602879701896397 / 36028797018963968) = 14"
    unfolding float_mul_def using float_round_eqI [of "140 * (3602879701896397 / 36028797018963968)" 3 7881299347898368] by simp
  have v: "float_add 10 14 = 24"
    unfolding float_add_def using float_round_of_int [of 24] by simp
  show ?thesis by (simp only: ramp_up_value_def float_of_small_ints p w v)
qed

lemma ramp_up_value_45: "ramp_up_value 45 = 31"
proof -
  have p: "float_truediv 45 300 = 5404319552844595 / 36028797018963968"
    unfolding float_truediv_def using float_round_eqI [of "45 / 300" "- 3" 5404319552844595] by simp
  have w: "float_mul 140 (5404319552844595 / 36028797018963968) = 21"
    unfolding float_mul_def using float_round_eqI [of "140 * (5404319552844595 / 36028797018963968)" 4 5910974510923776] by simp
  have v: "float_add 10 21 = 31"
    unfolding float_add_def using float_round_of_int [of 31] by simp
  show ?thesis by (simp only: ramp_up_value_def float_of_small_ints p w v)
qed

lemma ramp_up_value_below_15: "ramp_up_value (8444249301319679 / 562949953421312) = 17"
proof -
  have p: "float_truediv (8444249301319679 / 562949953421312) 300 = 7205759403792793 / 144115188075855872"
    unfolding float_truediv_def using float_round_eqI [of "(8444249301319679 / 562949953421312) / 300" "- 5" 7205759403792793] by simp
  have w: "float_mul 140 (7205759403792793 / 144115188075855872) = 7881299347898367 / 1125899906842624"
    unfolding float_mul_def using float_round_eqI [of "140 * (7205759403792793 / 144115188075855872)" 2 7881299347898367] by simp
  have v: "float_add 10 (7881299347898367 / 1125899906842624) = 17"
    unfolding float_add_def using float_round_eqI [of "10 + (7881299347898367 / 1125899906842624)" 4 4785074604081152] by simp
  show ?thesis by (simp only: ramp_up_value_def float_of_small_ints p w v)
qed

lemma ramp_down_value_450: "ramp_down_value 450 = 8913374262504107 / 70368744177664"
proof -
  have d: "float_sub 450 420 = 30"
    unfolding float_sub_def using float_round_of_int [of 30] by simp
  have p: "float_truediv 30 180 = 6004799503160661 / 36028797018963968"
    unfolding float_truediv_def using float_round_eqI [of "30 / 180" "- 3" 6004799503160661] by simp
  have w: "float_mul 140 (6004799503160661 / 36028797018963968) = 6567749456581973 / 281474976710656"
    unfolding float_mul_def using float_round_eqI [of "140 * (6004799503160661 / 36028797018963968)" 4 6567749456581973] by simp
  have v: "float_sub 150 (6567749456581973 / 281474976710656) = 8913374262504107 / 70368744177664"
    unfolding float_sub_def using float_round_eqI [of "150 - (6567749456581973 / 281474976710656)" 6 8913374262504107] by simp
  show ?thesis by (simp only: ramp_down_value_def float_of_small_ints d p w v)
qed

subsection \<open>Directives of the built-in shapes\<close>

lemma fst_tick:
  "fst (tick (Constant c) t) = Inr (fst (ConstantLoad_tick c t))"
  "fst (tick (Step s) t) = Inr (fst (StepLoad_tick s t))"
  "fst (tick (Spike p) t) = Inr (fst (SpikeLoad_tick p t))"
  "fst (tick (Ramp r) t) = fst (RampLoad_tick r t)"
  by (simp_all add: case_prod_unfold)

lemma StepLoad_init_directive:
  assumes "0 \<le> t" "fst (StepLoad_tick StepLoad_init t) = Some (u, r)"
  shows "0 \<le> u \<and> 0 < r"
  using assms by (auto simp: StepLoad_tick_def StepLoad_init_def split: if_splits)

lemma SpikeLoad_init_directive:
  assumes "fst (SpikeLoad_tick SpikeLoad_init t) = Some (u, r)"
  shows "0 \<le> u \<and> 0 < r"
  using assms by (auto simp: SpikeLoad_tick_def SpikeLoad_init_def split: if_splits)

lemma ConstantLoad_init_directive:
  assumes "fst (ConstantLoad_tick ConstantLoad_init t) = Some (u, r)"
  shows "0 \<le> u \<and> 0 < r"
  using assms by (auto simp: ConstantLoad_tick_def ConstantLoad_init_def split: if_splits)

lemma RampLoad_init_directive:
  assumes "0 \<le> t" "fst (RampLoad_tick RampLoad_init t) = Inr (Some (u, r))"
  shows "10 \<le> u \<and> u \<le> 150 \<and> r \<in> {10, 5, 8}"
proof -
  consider "t \<le> 300" | "300 < t" "t \<le> 420" | "420 < t" "t < 600" | "600 \<le> t" by linarith
  then show ?thesis
  proof cases
    case 1
    from ramp_up_value_bounds [OF assms(1) 1] have "10 \<le> py_int (ramp_up_value t)"
      "py_int (ramp_up_value t) \<le> 150" by (simp_all add: py_int_bounds)
    with assms RampLoad_init_up [OF 1] show ?thesis by simp
  next
    case 2
    with assms RampLoad_init_peak [of t] show ?thesis by simp
  next
    case 3
    from ramp_down_value_bounds [OF 3] have "10 \<le> py_int (ramp_down_value t)"
      "py_int (ramp_down_value t) \<le> 150" by (simp_all add: py_int_bounds)
    with assms RampLoad_init_down [OF 3] show ?thesis by simp
  next
    case 4
    with assms RampLoad_init_terminal [of t] show ?thesis by simp
  qed
qed

text \<open>
  The schedules the constructors install are well-formed: the Step offsets increase
  strictly, all populations are non-negative and all spawn rates positive, and the Spike
  windows do not overlap.
\<close>

lemma builtin_schedules_well_formed:
  "step_schedule_valid (steps StepLoad_init)"
  "windows_disjoint (spikes SpikeLoad_init)"
  "0 < base_spawn_rate SpikeLoad_init" "0 \<le> base_users SpikeLoad_init"
  "list_all (\<lambda>(spike_time, duration, peak_users). 0 \<le> peak_users) (spikes SpikeLoad_init)"
  by (simp_all add: step_schedule_valid_def offsets_increasing_def StepLoad_init_def
      SpikeLoad_init_def windows_overlap_def)

subsection \<open>Claims about the load shapes\<close>

text \<open>
  C1, as the specification states it, fails on RampLoad: its phase tests are
  \<^verbatim>\<open>run_time <= ...\<close>, so an elapsed time exactly at the end of the ramp-up (300) or of
  the plateau (420) still belongs to the phase that is ending. \<open>tick(300)\<close> is not the
  peak directive \<open>(150, 5)\<close> and \<open>tick(420)\<close> is not the ramp-down directive \<open>(150, 8)\<close>.
\<close>

theorem RampLoad_boundary_counterexample:
  "fst (RampLoad_tick RampLoad_init 300) \<noteq> Inr (Some (150, 5))
   \<and> fst (RampLoad_tick RampLoad_init 420) \<noteq> Inr (Some (150, 8))"
  using RampLoad_init_up [of 300] RampLoad_init_peak [of 420]
  by (simp add: ramp_up_value_ends py_int_def)

text \<open>
  C1, amended. At a boundary ConstantLoad, StepLoad and SpikeLoad resolve to the phase
  that is starting: every step is in force at its own start time, every spike window at
  its own start, the base load again at the end of a window, and the test duration itself
  is Terminal. RampLoad's phase boundaries are inclusive upper bounds: \<open>tick(300)\<close> is
  the ramp-up directive \<open>(150, 10)\<close>, \<open>tick(420)\<close> the peak directive \<open>(150, 5)\<close>, and
  \<open>tick(600)\<close> is Terminal.
\<close>

theorem tick_phase_boundaries:
  "fst (ConstantLoad_tick ConstantLoad_init 0) = Some (50, 5)
   \<and> fst (ConstantLoad_tick ConstantLoad_init 600) = None
   \<and> list_all (\<lambda>(start_time, user_count, spawn_rate).
        fst (StepLoad_tick StepLoad_init (of_int start_time)) = Some (user_count, spawn_rate))
      (steps StepLoad_init)
   \<and> fst (StepLoad_tick StepLoad_init 600) = None
   \<and> list_all (\<lambda>(spike_time, duration, peak_users).
        fst (SpikeLoad_tick SpikeLoad_init (of_int spike_time)) = Some (peak_users, 20)
        \<and> fst (SpikeLoad_tick SpikeLoad_init (of_int (spike_time + duration))) = Some (10, 2))
      (spikes SpikeLoad_init)
   \<and> fst (SpikeLoad_tick SpikeLoad_init 600) = None
   \<and> fst (RampLoad_tick RampLoad_init 300) = Inr (Some (150, 10))
   \<and> fst (RampLoad_tick RampLoad_init 420) = Inr (Some (150, 5))
   \<and> fst (RampLoad_tick RampLoad_init 600) = Inr None"
proof -
  have c: "fst (ConstantLoad_tick ConstantLoad_init 0) = Some (50, 5)"
    "fst (ConstantLoad_tick ConstantLoad_init 600) = None"
    by (simp_all add: ConstantLoad_tick_def ConstantLoad_init_def)
  have s: "list_all (\<lambda>(start_time, user_count, spawn_rate).
        fst (StepLoad_tick StepLoad_init (of_int start_time)) = Some (user_count, spawn_rate))
      (steps StepLoad_init)" "fst (StepLoad_tick StepLoad_init 600) = None"
    by (simp_all add: StepLoad_tick_def StepLoad_init_def)
  have p: "list_all (\<lambda>(spike_time, duration, peak_users).
        fst (SpikeLoad_tick SpikeLoad_init (of_int spike_time)) = Some (peak_users, 20)
        \<and> fst (SpikeLoad_tick SpikeLoad_init (of_int (spike_time + duration))) = Some (10, 2))
      (spikes SpikeLoad_init)" "fst (SpikeLoad_tick SpikeLoad_init 600) = None"
    by (simp_all add: SpikeLoad_tick_def SpikeLoad_init_def)
  have r: "fst (RampLoad_tick RampLoad_init 300) = Inr (Some (150, 10))"
    "fst (RampLoad_tick RampLoad_init 420) = Inr (Some (150, 5))"
    "fst (RampLoad_tick RampLoad_init 600) = Inr None"
    using RampLoad_init_up [of 300] RampLoad_init_peak [of 420] RampLoad_init_terminal [of 600]
    by (simp_all add: ramp_up_value_ends py_int_def)
  from c s p r show ?thesis by blast
qed

text \<open>
  C2. For a StepLoad whose step list is ordered by start offset, \<open>tick\<close> returns \<open>None\<close>
  (Terminal) at every elapsed time from the test duration on, and before it the
  \<open>(user_count, spawn_rate)\<close> of the last step whose start offset is at most the elapsed
  time, the default \<open>(50, 5)\<close> applying only when no step has been reached. For the steps
  \<^verbatim>\<open>__init__\<close> installs: \<open>tick(0) = (100, 10)\<close>, \<open>tick(119) = (100, 10)\<close>,
  \<open>tick(120) = (200, 20)\<close>, \<open>tick(239) = (200, 20)\<close>, \<open>tick(240) = (100, 10)\<close>.
\<close>

theorem StepLoad_tick_last_reached:
  assumes "sorted (map fst (steps self))"
  shows "(of_int (st_test_duration self) \<le> t \<longrightarrow> fst (StepLoad_tick self t) = None)
       \<and> (t < of_int (st_test_duration self) \<longrightarrow>
            fst (StepLoad_tick self t) = Some (spec_step_directive t (steps self)))
       \<and> (spec_step_directive t (steps self) = (50, 5) \<or>
            (\<exists>p \<in> set (steps self). of_int (fst p) \<le> t \<and> spec_step_directive t (steps self) = snd p))
       \<and> sorted (map fst (steps StepLoad_init))
       \<and> fst (StepLoad_tick StepLoad_init 0) = Some (100, 10)
       \<and> fst (StepLoad_tick StepLoad_init 119) = Some (100, 10)
       \<and> fst (StepLoad_tick StepLoad_init 120) = Some (200, 20)
       \<and> fst (StepLoad_tick StepLoad_init 239) = Some (200, 20)
       \<and> fst (StepLoad_tick StepLoad_init 240) = Some (100, 10)"
proof (intro conjI impI)
  assume "of_int (st_test_duration self) \<le> t"
  then show "fst (StepLoad_tick self t) = None" by (simp add: StepLoad_tick_def)
next
  assume "t < of_int (st_test_duration self)"
  then show "fst (StepLoad_tick self t) = Some (spec_step_directive t (steps self))"
    using StepLoad_scan_sorted [OF assms, of t "(50, 5)"]
    by (simp add: StepLoad_tick_def spec_step_directive_def)
next
  show "spec_step_directive t (steps self) = (50, 5) \<or>
        (\<exists>p \<in> set (steps self). of_int (fst p) \<le> t \<and> spec_step_directive t (steps self) = snd p)"
  proof (cases "step_reached t (steps self) = []")
    case True
    then show ?thesis by (simp add: spec_step_directive_def)
  next
    case False
    then have "last (step_reached t (steps self)) \<in> set (step_reached t (steps self))"
      by (rule last_in_set)
    then have "last (step_reached t (steps self)) \<in> set (steps self)"
      and "of_int (fst (last (step_reached t (steps self)))) \<le> t"
      by (auto simp: step_reached_def)
    with False show ?thesis by (auto simp: spec_step_directive_def)
  qed
qed (simp_all add: StepLoad_tick_def StepLoad_init_def)

theorem StepLoad_tick_last_reached_witness:
  "sorted (map fst (steps StepLoad_init))
   \<and> (130::real) < of_int (st_test_duration StepLoad_init)
   \<and> fst (StepLoad_tick StepLoad_init 130) = Some (spec_step_directive 130 (steps StepLoad_init))
   \<and> spec_step_directive 130 (steps StepLoad_init) = (200, 20)
   \<and> of_int (st_test_duration StepLoad_init) \<le> (600::real)
   \<and> fst (StepLoad_tick StepLoad_init 600) = None"
proof -
  have srt: "sorted (map fst (steps StepLoad_init))" by (simp add: StepLoad_init_def)
  have lt: "(130::real) < of_int (st_test_duration StepLoad_init)"
    and ge: "of_int (st_test_duration StepLoad_init) \<le> (600::real)"
    by (simp_all add: StepLoad_init_def)
  have v: "spec_step_directive 130 (steps StepLoad_init) = (200, 20)"
    by (simp add: spec_step_directive_def step_reached_def StepLoad_init_def)
  from StepLoad_tick_last_reached [OF srt, of 130] lt
  have a: "fst (StepLoad_tick StepLoad_init 130) = Some (spec_step_directive 130 (steps StepLoad_init))"
    by blast
  from StepLoad_tick_last_reached [OF srt, of 600] ge
  have b: "fst (StepLoad_tick StepLoad_init 600) = None" by blast
  from srt lt a v ge b show ?thesis by blast
qed


text \<open>
  C3, as the specification states it, fails in one part: the user count is not always the
  floor of the exact value \<open>min + (max - min) * (t / up_duration)\<close>, because \<^verbatim>\<open>tick\<close>
  computes the value in floats. The run time \<open>15 - 2\<^sup>-\<^sup>4\<^sup>9\<close> is a double; there the quotient,
  the product and the sum are each rounded, the sum to 17, and \<^verbatim>\<open>tick\<close> returns 17 users,
  while the exact value lies below 17 and its floor is 16.
\<close>

theorem RampLoad_ramp_up_floor_counterexample:
  "float_round (8444249301319679 / 562949953421312) = 8444249301319679 / 562949953421312
   \<and> fst (RampLoad_tick RampLoad_init (8444249301319679 / 562949953421312)) = Inr (Some (17, 10))
   \<and> \<lfloor>10 + 140 * ((8444249301319679 / 562949953421312 :: real) / 300)\<rfloor> = 16"
proof -
  have d: "float_round (8444249301319679 / 562949953421312) = 8444249301319679 / 562949953421312"
    using float_round_eqI [of "8444249301319679 / 562949953421312" 3 8444249301319679] by simp
  have "(8444249301319679 / 562949953421312 :: real) \<le> 300" by simp
  from RampLoad_init_up [OF this]
  have c: "fst (RampLoad_tick RampLoad_init (8444249301319679 / 562949953421312)) = Inr (Some (17, 10))"
    by (simp add: ramp_up_value_below_15 py_int_def)
  have f: "\<lfloor>10 + 140 * ((8444249301319679 / 562949953421312 :: real) / 300)\<rfloor> = 16"
    by (rule floor_unique) simp_all
  from d c f show ?thesis by blast
qed

text \<open>
  C3, amended. For the built-in RampLoad (\<open>min_users = 10\<close>, \<open>max_users = 150\<close>,
  \<open>ramp_up_duration = 300\<close>) and elapsed times \<open>0 \<le> t \<le> t' \<le> 300\<close>: \<^verbatim>\<open>tick\<close> returns the
  user count that is the truncation toward zero of \<open>10 + 140 * (t / 300)\<close> computed in
  floats, which differs from the floor of the exact value by at most 1; the count at \<open>t\<close>
  is at most the count at \<open>t'\<close>, which is at most 150; \<open>tick(0)\<close> yields 10 users and
  \<open>tick(300)\<close> yields 150.
\<close>

theorem RampLoad_ramp_up_monotone:
  assumes "0 \<le> t" "t \<le> t'" "t' \<le> 300"
  shows "\<exists>u u'. fst (RampLoad_tick RampLoad_init t) = Inr (Some (u, 10))
           \<and> fst (RampLoad_tick RampLoad_init t') = Inr (Some (u', 10))
           \<and> u = py_int (ramp_up_value t) \<and> u = \<lfloor>ramp_up_value t\<rfloor>
           \<and> u' = \<lfloor>ramp_up_value t'\<rfloor>
           \<and> \<bar>u - \<lfloor>10 + 140 * (t / 300)\<rfloor>\<bar> \<le> 1
           \<and> u \<le> u' \<and> u' \<le> 150
           \<and> fst (RampLoad_tick RampLoad_init 0) = Inr (Some (10, 10))
           \<and> fst (RampLoad_tick RampLoad_init 300) = Inr (Some (150, 10))"
proof -
  from assms have t: "0 \<le> t" "t \<le> 300" and t': "0 \<le> t'" "t' \<le> 300" by simp_all
  note bt = ramp_up_value_bounds [OF t] and bt' = ramp_up_value_bounds [OF t']
  have u: "py_int (ramp_up_value t) = \<lfloor>ramp_up_value t\<rfloor>"
    and u': "py_int (ramp_up_value t') = \<lfloor>ramp_up_value t'\<rfloor>"
    using bt bt' by (simp_all add: py_int_bounds)
  have le: "\<lfloor>ramp_up_value t\<rfloor> \<le> \<lfloor>ramp_up_value t'\<rfloor>"
    using ramp_up_value_mono [OF assms(1,2)] by (rule floor_mono)
  have hi: "\<lfloor>ramp_up_value t'\<rfloor> \<le> 150"
    using py_int_bounds(2) [OF bt'] by (simp add: u')
  have near: "\<bar>\<lfloor>ramp_up_value t\<rfloor> - \<lfloor>10 + 140 * (t / 300)\<rfloor>\<bar> \<le> 1"
  proof -
    from ramp_up_value_error [OF t]
    have a: "ramp_up_value t \<le> 10 + 140 * (t / 300) + 1"
      and b: "10 + 140 * (t / 300) \<le> ramp_up_value t + 1" by linarith+
    from floor_mono [OF a] have "\<lfloor>ramp_up_value t\<rfloor> \<le> \<lfloor>10 + 140 * (t / 300)\<rfloor> + 1" by simp
    moreover from floor_mono [OF b] have "\<lfloor>10 + 140 * (t / 300)\<rfloor> \<le> \<lfloor>ramp_up_value t\<rfloor> + 1"
      by simp
    ultimately show ?thesis by linarith
  qed
  have a: "fst (RampLoad_tick RampLoad_init 0) = Inr (Some (10, 10))"
    using RampLoad_init_up [of 0] by (simp add: ramp_up_value_ends py_int_def)
  have b: "fst (RampLoad_tick RampLoad_init 300) = Inr (Some (150, 10))"
    using RampLoad_init_up [of 300] by (simp add: ramp_up_value_ends py_int_def)
  from RampLoad_init_up [OF t(2)] RampLoad_init_up [OF t'(2)] u u' le hi near a b
  show ?thesis by simp
qed

theorem RampLoad_ramp_up_monotone_witness:
  "(0::real) \<le> 30 \<and> (30::real) \<le> 45 \<and> (45::real) \<le> 300
   \<and> fst (RampLoad_tick RampLoad_init 30) = Inr (Some (24, 10))
   \<and> fst (RampLoad_tick RampLoad_init 45) = Inr (Some (31, 10))
   \<and> (24::int) \<le> 31 \<and> (31::int) \<le> 150"
  using RampLoad_ramp_up_monotone [of 30 45]
  by (auto simp: ramp_up_value_30 ramp_up_value_45)

text \<open>
  C4. For a SpikeLoad whose windows do not overlap: past the test duration \<open>tick\<close> returns
  \<open>None\<close> (Terminal); before it, \<open>tick\<close> returns the base directive
  \<open>(base_users, base_spawn_rate)\<close> at every elapsed time outside all windows, and the
  directive \<open>(peak_users, 20)\<close> of the window \<open>[spike_time, spike_time + duration)\<close>
  the elapsed time lies in. The windows \<^verbatim>\<open>__init__\<close> installs do not overlap, and its
  base directive is \<open>(10, 2)\<close>.
\<close>

theorem SpikeLoad_tick_windows:
  assumes "windows_disjoint (spikes self)"
  shows "(of_int (sp_test_duration self) \<le> t \<longrightarrow> fst (SpikeLoad_tick self t) = None)
       \<and> (t < of_int (sp_test_duration self) \<and> (\<forall>w \<in> set (spikes self). \<not> in_window t w) \<longrightarrow>
            fst (SpikeLoad_tick self t) = Some (base_users self, base_spawn_rate self))
       \<and> (\<forall>w \<in> set (spikes self). t < of_int (sp_test_duration self) \<and> in_window t w \<longrightarrow>
            fst (SpikeLoad_tick self t) = Some (window_peak w, 20))
       \<and> windows_disjoint (spikes SpikeLoad_init)
       \<and> base_users SpikeLoad_init = 10 \<and> base_spawn_rate SpikeLoad_init = 2"
proof (intro conjI impI ballI)
  assume "of_int (sp_test_duration self) \<le> t"
  then show "fst (SpikeLoad_tick self t) = None" by (simp add: SpikeLoad_tick_def)
next
  assume "t < of_int (sp_test_duration self) \<and> (\<forall>w \<in> set (spikes self). \<not> in_window t w)"
  then show "fst (SpikeLoad_tick self t) = Some (base_users self, base_spawn_rate self)"
    using SpikeLoad_scan_outside [of "spikes self" t] by (simp add: SpikeLoad_tick_def)
next
  fix w assume "w \<in> set (spikes self)" and "t < of_int (sp_test_duration self) \<and> in_window t w"
  then show "fst (SpikeLoad_tick self t) = Some (window_peak w, 20)"
    using SpikeLoad_scan_inside [OF assms, of w t] by (simp add: SpikeLoad_tick_def)
qed (simp_all add: SpikeLoad_init_def windows_overlap_def)

theorem SpikeLoad_tick_windows_witness:
  "windows_disjoint (spikes SpikeLoad_init)
   \<and> (75::real) < of_int (sp_test_duration SpikeLoad_init)
   \<and> (60, 30, 15) \<in> set (spikes SpikeLoad_init) \<and> in_window 75 (60, 30, 15)
   \<and> fst (SpikeLoad_tick SpikeLoad_init 75) = Some (15, 20)
   \<and> list_all (\<lambda>w. \<not> in_window 100 w) (spikes SpikeLoad_init)
   \<and> fst (SpikeLoad_tick SpikeLoad_init 100) = Some (10, 2)
   \<and> fst (SpikeLoad_tick SpikeLoad_init 600) = None"
proof -
  have dj: "windows_disjoint (spikes SpikeLoad_init)"
    by (simp add: SpikeLoad_init_def windows_overlap_def)
  have mem: "(60, 30, 15) \<in> set (spikes SpikeLoad_init)" by (simp add: SpikeLoad_init_def)
  have out: "\<forall>w \<in> set (spikes SpikeLoad_init). \<not> in_window 100 w"
    by (simp add: SpikeLoad_init_def in_window_def)
  have inw: "in_window 75 (60, 30, 15)" by (simp add: in_window_def)
  have lt: "(75::real) < of_int (sp_test_duration SpikeLoad_init)" "(100::real) < of_int (sp_test_duration SpikeLoad_init)"
    "of_int (sp_test_duration SpikeLoad_init) \<le> (600::real)"
    by (simp_all add: SpikeLoad_init_def)
  from SpikeLoad_tick_windows [OF dj, of 75] mem inw lt
  have a: "fst (SpikeLoad_tick SpikeLoad_init 75) = Some (window_peak (60, 30, 15), 20)" by blast
  from SpikeLoad_tick_windows [OF dj, of 100] out lt
  have b: "fst (SpikeLoad_tick SpikeLoad_init 100) = Some (base_users SpikeLoad_init, base_spawn_rate SpikeLoad_init)" by blast
  from SpikeLoad_tick_windows [OF dj, of 600] lt
  have c: "fst (SpikeLoad_tick SpikeLoad_init 600) = None" by blast
  from a have a': "fst (SpikeLoad_tick SpikeLoad_init 75) = Some (15, 20)" by (simp add: window_peak_def)
  from b have b': "fst (SpikeLoad_tick SpikeLoad_init 100) = Some (10, 2)" by (simp add: SpikeLoad_init_def)
  from out have out': "list_all (\<lambda>w. \<not> in_window 100 w) (spikes SpikeLoad_init)"
    by (simp only: list_all_iff)
  from dj lt mem inw a' out' b' c show ?thesis by blast
qed

text \<open>
  C6. For every shape variant, whatever its attributes, and every elapsed time: \<open>tick\<close>
  leaves the object as it was, so a second call with the same elapsed time returns the
  same result (directive, Terminal or error) and again the same object.
\<close>

theorem tick_pure:
  "snd (tick sh t) = sh \<and> tick (snd (tick sh t)) t = tick sh t"
proof -
  have "snd (tick sh t) = sh"
  proof (cases sh)
    case (Constant self)
    then show ?thesis by (simp add: ConstantLoad_tick_def)
  next
    case (Step self)
    then show ?thesis by (simp add: StepLoad_tick_def)
  next
    case (Spike self)
    then show ?thesis by (simp add: SpikeLoad_tick_def split: option.splits)
  next
    case (Ramp self)
    then show ?thesis by (simp add: RampLoad_tick_def Let_def)
  qed
  then show ?thesis by simp
qed

text \<open>
  C9. For each of the four shapes as constructed and every elapsed time \<open>t \<ge> 0\<close>, a
  directive \<open>(u, r)\<close> returned by \<open>tick\<close> has \<open>u \<ge> 0\<close> and \<open>r > 0\<close>; for RampLoad the user
  count lies in \<open>[min_users, max_users]\<close> and the spawn rate is one of the phase constants
  10, 5 and 8.
\<close>

theorem tick_directive_invariant:
  assumes "sh \<in> set shapes_init" "0 \<le> t" "fst (tick sh t) = Inr (Some (u, r))"
  shows "0 \<le> u \<and> 0 < r
       \<and> (sh = Ramp RampLoad_init \<longrightarrow>
            min_users RampLoad_init \<le> u \<and> u \<le> max_users RampLoad_init \<and> r \<in> {10, 5, 8})"
proof -
  from assms(1) consider "sh = Constant ConstantLoad_init" | "sh = Step StepLoad_init"
    | "sh = Spike SpikeLoad_init" | "sh = Ramp RampLoad_init"
    by (auto simp: shapes_init_def)
  then show ?thesis
  proof cases
    case 1
    with assms(3) have "fst (ConstantLoad_tick ConstantLoad_init t) = Some (u, r)"
      by (simp add: fst_tick del: tick.simps)
    with 1 ConstantLoad_init_directive show ?thesis by simp
  next
    case 2
    with assms(3) have "fst (StepLoad_tick StepLoad_init t) = Some (u, r)"
      by (simp add: fst_tick del: tick.simps)
    with 2 StepLoad_init_directive [OF assms(2)] show ?thesis by simp
  next
    case 3
    with assms(3) have "fst (SpikeLoad_tick SpikeLoad_init t) = Some (u, r)"
      by (simp add: fst_tick del: tick.simps)
    with 3 SpikeLoad_init_directive show ?thesis by simp
  next
    case 4
    with assms(3) have "fst (RampLoad_tick RampLoad_init t) = Inr (Some (u, r))"
      by (simp add: fst_tick del: tick.simps)
    from RampLoad_init_directive [OF assms(2) this] 4 show ?thesis
      by (auto simp: RampLoad_init_def)
  qed
qed

theorem tick_directive_invariant_witness:
  "Ramp RampLoad_init \<in> set shapes_init \<and> (0::real) \<le> 450
   \<and> fst (tick (Ramp RampLoad_init) 450) = Inr (Some (126, 8))
   \<and> (0::int) \<le> 126 \<and> (0::int) < 8
   \<and> min_users RampLoad_init \<le> 126 \<and> 126 \<le> max_users RampLoad_init"
proof -
  have m: "Ramp RampLoad_init \<in> set shapes_init" by (simp add: shapes_init_def)
  have v: "fst (tick (Ramp RampLoad_init) 450) = Inr (Some (126, 8))"
    using RampLoad_init_down [of 450]
    by (simp add: fst_tick ramp_down_value_450 py_int_def del: tick.simps)
  from tick_directive_invariant [OF m _ v] m v show ?thesis by simp
qed

text \<open>
  C10. For a RampLoad whose three phase durations add up to at least the test duration
  (and whose ramp durations are not 0), \<open>tick\<close> returns Terminal exactly when the elapsed
  time has reached the test duration, and a directive at every earlier time: the trailing
  \<^verbatim>\<open>else\<close> of the phase chain is never taken. The built-in durations
  \<open>300 + 120 + 180\<close> equal the built-in test duration 600.
\<close>

theorem RampLoad_tick_terminal_iff:
  assumes "rl_test_duration self \<le> ramp_up_duration self + peak_duration self + ramp_down_duration self"
    and "ramp_up_duration self \<noteq> 0" and "ramp_down_duration self \<noteq> 0"
  shows "(fst (RampLoad_tick self t) = Inr None \<longleftrightarrow> of_int (rl_test_duration self) \<le> t)
       \<and> (t < of_int (rl_test_duration self) \<longrightarrow>
            (\<exists>u r. fst (RampLoad_tick self t) = Inr (Some (u, r))))
       \<and> rl_test_duration RampLoad_init
           = ramp_up_duration RampLoad_init + peak_duration RampLoad_init
             + ramp_down_duration RampLoad_init"
proof (cases "of_int (rl_test_duration self) \<le> t")
  case True
  then show ?thesis by (simp add: RampLoad_tick_def RampLoad_init_def)
next
  case False
  from assms(1) have "(of_int (rl_test_duration self) :: real)
      \<le> of_int (ramp_up_duration self + peak_duration self + ramp_down_duration self)"
    by (simp only: of_int_le_iff)
  with False have "t \<le> of_int (ramp_up_duration self + peak_duration self + ramp_down_duration self)"
    by linarith
  with False assms(2,3) show ?thesis
    by (simp add: RampLoad_tick_def RampLoad_init_def Let_def)
qed

theorem RampLoad_tick_terminal_iff_witness:
  "rl_test_duration RampLoad_init
     = ramp_up_duration RampLoad_init + peak_duration RampLoad_init + ramp_down_duration RampLoad_init
   \<and> ramp_up_duration RampLoad_init \<noteq> 0 \<and> ramp_down_duration RampLoad_init \<noteq> 0
   \<and> (450::real) < of_int (rl_test_duration RampLoad_init)
   \<and> (\<exists>u r. fst (RampLoad_tick RampLoad_init 450) = Inr (Some (u, r)))
   \<and> fst (RampLoad_tick RampLoad_init 600) = Inr None"
proof -
  have h: "rl_test_duration RampLoad_init
     \<le> ramp_up_duration RampLoad_init + peak_duration RampLoad_init + ramp_down_duration RampLoad_init"
    "ramp_up_duration RampLoad_init \<noteq> 0" "ramp_down_duration RampLoad_init \<noteq> 0"
    by (simp_all add: RampLoad_init_def)
  have e: "rl_test_duration RampLoad_init
     = ramp_up_duration RampLoad_init + peak_duration RampLoad_init + ramp_down_duration RampLoad_init"
    by (simp add: RampLoad_init_def)
  have lt: "(450::real) < of_int (rl_test_duration RampLoad_init)"
    and ge: "of_int (rl_test_duration RampLoad_init) \<le> (600::real)"
    by (simp_all add: RampLoad_init_def)
  from RampLoad_tick_terminal_iff [OF h, of 450] lt
  have a: "\<exists>u r. fst (RampLoad_tick RampLoad_init 450) = Inr (Some (u, r))" by blast
  from RampLoad_tick_terminal_iff [OF h, of 600] ge
  have b: "fst (RampLoad_tick RampLoad_init 600) = Inr None" by blast
  from e h(2,3) lt a b show ?thesis by blast
qed

section \<open>Properties of the virtual users\<close>

subsection \<open>What a task body issues and draws\<close>

lemmas task_body_defs =
  browse_home_def browse_catalogue_def browse_category_def view_item_def
  add_to_cart_def add_to_cart_tracked_def view_cart_def checkout_def

lemma run_task_requests:
  "fst (run_task f t rb respond self g) = fst (run_task f' t rb respond' self' g)"
  by (cases t; cases f; cases f') (simp_all add: task_body_defs Let_def split: prod.splits)

lemma run_task_rng:
  "snd (snd (run_task f t rb respond self g)) = snd (snd (run_task f' t rb respond' self' g))"
  by (cases t; cases f; cases f') (simp_all add: task_body_defs Let_def split: prod.splits)

lemma run_task_one_request:
  "length (fst (run_task f t rb respond self g)) = 1"
  by (cases t; cases f) (simp_all add: task_body_defs Let_def split: prod.splits)

lemma run_cycle_requests:
  "fst (run_cycle f rb respond self g) = fst (run_cycle f' rb respond' self' g)"
  using run_task_requests [of f _ rb respond self _ f' respond' self']
  by (simp add: run_cycle_def case_prod_unfold)

lemma run_cycle_rng:
  "snd (snd (run_cycle f rb respond self g)) = snd (snd (run_cycle f' rb respond' self' g))"
  using run_task_rng [of f _ rb respond self _ f' respond' self']
  by (simp add: run_cycle_def case_prod_unfold)

lemma run_cycle_one_request:
  "length (fst (run_cycle f rb respond self g)) = 1"
  using run_task_one_request [of f _ rb respond self]
  by (simp add: run_cycle_def case_prod_unfold)

lemma on_start_rng: "snd (on_start f rb self g) = snd (on_start f rb self' g)"
  by (cases f) (simp_all add: on_start_def case_prod_unfold)

lemma on_start_new_user:
  "on_start Pattern counter_randbelow self 0 = (new_user, 1)"
  by (simp add: on_start_def random_randint_def counter_randbelow_def new_user_def)

lemma tasks_nth:
  "tasks ! 24 = Browse_home" "tasks ! 25 = Browse_catalogue" "tasks ! 44 = Browse_catalogue"
  "tasks ! 45 = Browse_category" "tasks ! 46 = Browse_category"
  "tasks ! 93 = Add_to_cart" "tasks ! 95 = View_cart"
  "length tasks = 107"
  by (simp_all add: tasks_def nth_append)

lemma run_cycles_requests:
  "length cycles = length cycles' \<Longrightarrow>
   fst (run_cycles f rb cycles self g) = fst (run_cycles f' rb cycles' self' g)
   \<and> snd (snd (run_cycles f rb cycles self g)) = snd (snd (run_cycles f' rb cycles' self' g))"
proof (induction cycles arbitrary: cycles' self self' g)
  case Nil
  then show ?case by simp
next
  case (Cons respond cycles)
  from Cons.prems obtain respond' rest where c': "cycles' = respond' # rest"
    and rest: "length cycles = length rest"
    by (cases cycles') auto
  obtain rs u h where a: "run_cycle f rb respond self g = (rs, u, h)"
    by (cases "run_cycle f rb respond self g")
  obtain rs' u' h' where b: "run_cycle f' rb respond' self' g = (rs', u', h')"
    by (cases "run_cycle f' rb respond' self' g")
  from run_cycle_requests [of f rb respond self g f' respond' self'] a b have rs: "rs' = rs"
    by simp
  from run_cycle_rng [of f rb respond self g f' respond' self'] a b have h: "h' = h"
    by simp
  from Cons.IH [OF rest, of u h u'] show ?case
    by (simp add: c' a b rs h case_prod_unfold)
qed

lemma run_cycles_length:
  "length (fst (run_cycles f rb cycles self g)) = length cycles"
proof (induction cycles arbitrary: self g)
  case Nil
  then show ?case by simp
next
  case (Cons respond cycles)
  obtain rs u h where a: "run_cycle f rb respond self g = (rs, u, h)"
    by (cases "run_cycle f rb respond self g")
  from run_cycle_one_request [of f rb respond self g] a have "length rs = 1" by simp
  with Cons.IH [of u h] show ?case by (simp add: a case_prod_unfold)
qed

lemma run_user_requests:
  assumes "length cycles = length cycles'"
  shows "fst (run_user f rb cycles self g) = fst (run_user f rb cycles' self' g)"
proof -
  obtain u h where a: "on_start f rb self g = (u, h)" by (cases "on_start f rb self g")
  obtain u' h' where b: "on_start f rb self' g = (u', h')" by (cases "on_start f rb self' g")
  from on_start_rng [of f rb self g self'] a b have h: "h' = h" by simp
  from run_cycles_requests [OF assms, of f rb u h f u'] show ?thesis
    by (simp add: run_user_def a b h)
qed

lemma run_events_requests:
  "map event_is_start events = map event_is_start events' \<Longrightarrow>
   map snd (fst (run_events f rb events users g)) = map snd (fst (run_events f rb events' users' g))
   \<and> snd (snd (run_events f rb events users g)) = snd (snd (run_events f rb events' users' g))"
proof (induction events arbitrary: events' users users' g)
  case Nil
  then show ?case by simp
next
  case (Cons e events)
  from Cons.prems obtain e' rest where ev': "events' = e' # rest"
    and kind: "event_is_start e = event_is_start e'"
    and rest: "map event_is_start events = map event_is_start rest"
    by (cases events') auto
  show ?case
  proof (cases e)
    case (Start uid)
    with kind obtain uid' where e': "e' = Start uid'" by (cases e') auto
    obtain u h where a: "on_start f rb (users uid) g = (u, h)"
      by (cases "on_start f rb (users uid) g")
    obtain u' h' where b: "on_start f rb (users' uid') g = (u', h')"
      by (cases "on_start f rb (users' uid') g")
    from on_start_rng [of f rb "users uid" g "users' uid'"] a b have h: "h' = h" by simp
    from Cons.IH [OF rest, of "users(uid := u)" h "users'(uid' := u')"] show ?thesis
      by (simp only: Start e' ev' run_events.simps a b h prod.case)
  next
    case (Cycle uid respond)
    with kind obtain uid' respond' where e': "e' = Cycle uid' respond'" by (cases e') auto
    obtain rs u h where a: "run_cycle f rb respond (users uid) g = (rs, u, h)"
      by (cases "run_cycle f rb respond (users uid) g")
    obtain rs' u' h' where b: "run_cycle f rb respond' (users' uid') g = (rs', u', h')"
      by (cases "run_cycle f rb respond' (users' uid') g")
    from run_cycle_requests [of f rb respond "users uid" g f respond' "users' uid'"] a b
    have rs: "rs' = rs" by simp
    from run_cycle_rng [of f rb respond "users uid" g f respond' "users' uid'"] a b
    have h: "h' = h" by simp
    obtain sent us k where r: "run_events f rb events (users(uid := u)) h = (sent, us, k)"
      by (cases "run_events f rb events (users(uid := u)) h")
    obtain sent' us' k' where r': "run_events f rb rest (users'(uid' := u')) h = (sent', us', k')"
      by (cases "run_events f rb rest (users'(uid' := u')) h")
    have "map snd (fst (sent, us, k)) = map snd (fst (sent', us', k'))
        \<and> snd (snd (sent, us, k)) = snd (snd (sent', us', k'))"
      using Cons.IH [OF rest, of "users(uid := u)" h "users'(uid' := u')"] by (simp only: r r')
    then have ih: "map snd sent = map snd sent'" "k = k'" by simp_all
    have "run_events f rb (e # events) users g = (map (Pair uid) rs @ sent, us, k)"
      by (simp only: Cycle run_events.simps a r prod.case)
    moreover have "run_events f rb events' users' g = (map (Pair uid') rs @ sent', us', k')"
      by (simp only: e' ev' run_events.simps b rs h r' prod.case)
    ultimately show ?thesis using ih by (simp add: comp_def)
  qed
qed

subsection \<open>Claims about the virtual users\<close>

text \<open>
  C7, as the specification states it, fails: the users do not own their random streams.
  With the same initial generator state, user 0 of \<^verbatim>\<open>locustfile.py\<close> running one cycle
  alone requests the home page, and requests the catalogue when user 1 has run a cycle
  before it, because that cycle's pick has advanced the generator both users draw from.
  In the per-pattern files \<^verbatim>\<open>on_start\<close> draws too: user 0, started and run for one cycle,
  requests the catalogue alone and a category page when user 1 has started and run a
  cycle before it.
\<close>

theorem shared_generator_counterexample:
  "requests_of 0 (fst (run_events Basic counter_randbelow
       [Cycle 0 respond_ok] fresh_users 24))
     = [Get ''/'' ''browse_home'']
   \<and> requests_of 0 (fst (run_events Basic counter_randbelow
       [Cycle 1 respond_ok, Cycle 0 respond_ok] fresh_users 24))
     = [Get ''/catalogue'' ''browse_catalogue'']
   \<and> requests_of 0 (fst (run_events Basic counter_randbelow
       [Cycle 0 respond_ok] fresh_users 24))
     \<noteq> requests_of 0 (fst (run_events Basic counter_randbelow
       [Cycle 1 respond_ok, Cycle 0 respond_ok] fresh_users 24))
   \<and> requests_of 0 (fst (run_events Pattern counter_randbelow
       [Start 0, Cycle 0 respond_ok] fresh_users 43))
     = [Get ''/catalogue'' ''browse_catalogue'']
   \<and> requests_of 0 (fst (run_events Pattern counter_randbelow
       [Start 1, Cycle 1 respond_ok, Start 0, Cycle 0 respond_ok] fresh_users 43))
     = [Get ''/category.html?tags=purple'' ''browse_category'']"
  by (simp add: requests_of_def run_cycle_def get_next_task_def task_body_defs random_choice_def
      random_randint_def on_start_def counter_randbelow_def tasks_nth tags_def Let_def)

text \<open>
  C7, amended. The users of a process share the one generator of Python's \<^verbatim>\<open>random\<close>
  module, which the code never seeds: every draw, be it the pick of a user's next task,
  the random choice of a task body or the \<^verbatim>\<open>randint\<close> of \<^verbatim>\<open>on_start\<close>, is taken from the
  generator state left by the draw before it, whichever user made that one. The requests
  a run issues, in the order it issues them, and the generator state it ends in are
  determined by the initial generator state and the order of starts and cycles in the
  run, not by which user does which of them.
\<close>

theorem shared_generator_stream:
  assumes "map event_is_start events = map event_is_start events'"
  shows "map snd (fst (run_events f rb events users g))
           = map snd (fst (run_events f rb events' users' g))
       \<and> snd (snd (run_events f rb events users g)) = snd (snd (run_events f rb events' users' g))"
  using run_events_requests [OF assms] .

theorem shared_generator_stream_witness:
  "map event_is_start [Cycle 1 respond_ok, Cycle 0 respond_ok]
     = map event_is_start [Cycle 0 respond_ok, Cycle 0 respond_ok]
   \<and> map snd (fst (run_events Basic counter_randbelow
          [Cycle 1 respond_ok, Cycle 0 respond_ok] fresh_users 24))
     = map snd (fst (run_events Basic counter_randbelow
          [Cycle 0 respond_ok, Cycle 0 respond_ok] fresh_users 24))
   \<and> map snd (fst (run_events Basic counter_randbelow
          [Cycle 1 respond_ok, Cycle 0 respond_ok] fresh_users 24))
     = [Get ''/'' ''browse_home'', Get ''/catalogue'' ''browse_catalogue'']"
proof -
  have m: "map event_is_start [Cycle 1 respond_ok, Cycle 0 respond_ok]
     = map event_is_start [Cycle 0 respond_ok, Cycle 0 respond_ok]"
    by simp
  have v: "map snd (fst (run_events Basic counter_randbelow
          [Cycle 1 respond_ok, Cycle 0 respond_ok] fresh_users 24))
     = [Get ''/'' ''browse_home'', Get ''/catalogue'' ''browse_catalogue'']"
    by (simp add: run_cycle_def get_next_task_def task_body_defs random_choice_def
        counter_randbelow_def tasks_nth)
  from shared_generator_stream [OF m, of Basic counter_randbelow fresh_users 24 fresh_users]
  have e: "map snd (fst (run_events Basic counter_randbelow
          [Cycle 1 respond_ok, Cycle 0 respond_ok] fresh_users 24))
     = map snd (fst (run_events Basic counter_randbelow
          [Cycle 0 respond_ok, Cycle 0 respond_ok] fresh_users 24))"
    by blast
  from m e v show ?thesis by blast
qed

text \<open>
  C8. In either variant of the class, every task body issues exactly one request,
  whatever the response, so every cycle issues one request and a session of \<open>n\<close> cycles
  issues \<open>n\<close> requests; and the requests of a session, with or without its \<^verbatim>\<open>on_start\<close>,
  are the same for any two ways the server may answer and any two states of the user's
  attributes: which request a cycle issues depends on the random draws alone. The status
  code that \<^verbatim>\<open>add_to_cart\<close> of the per-pattern files tests only decides whether the item is
  recorded in \<open>cart_items\<close>, which no task reads.
\<close>

theorem session_requests_ignore_outcomes:
  assumes "length cycles = length cycles'"
  shows "fst (run_cycles f rb cycles self g) = fst (run_cycles f rb cycles' self' g)
       \<and> fst (run_user f rb cycles self g) = fst (run_user f rb cycles' self' g)
       \<and> length (fst (run_cycles f rb cycles self g)) = length cycles
       \<and> length (fst (run_cycle f rb respond self g)) = 1
       \<and> length (fst (run_task f t rb respond self g)) = 1"
  using run_cycles_requests [OF assms, of f rb self g f self'] run_user_requests [OF assms, of f rb self g self']
    run_cycles_length [of f rb cycles self g] run_cycle_one_request [of f rb respond self g]
    run_task_one_request [of f t rb respond self g]
  by simp

theorem session_requests_ignore_outcomes_witness:
  "length [respond_ok, respond_ok] = length [respond_error, respond_error]
   \<and> fst (run_cycles Pattern counter_randbelow [respond_ok, respond_ok] new_user 93)
     = fst (run_cycles Pattern counter_randbelow [respond_error, respond_error] new_user 93)
   \<and> fst (run_cycles Pattern counter_randbelow [respond_ok, respond_ok] new_user 93)
     = [Post ''/cart'' (''819e1fbf-a459-4c89-9e03-9b5d1a5fc1b0'', 1) ''add_to_cart'',
        Get ''/basket.html'' ''view_cart'']
   \<and> cart_items (fst (snd (run_cycles Pattern counter_randbelow
          [respond_ok, respond_ok] new_user 93)))
     = [''819e1fbf-a459-4c89-9e03-9b5d1a5fc1b0'']
   \<and> cart_items (fst (snd (run_cycles Pattern counter_randbelow
          [respond_error, respond_error] new_user 93)))
     = []"
proof -
  have m: "length [respond_ok, respond_ok] = length [respond_error, respond_error]" by simp
  have v: "fst (run_cycles Pattern counter_randbelow [respond_ok, respond_ok] new_user 93)
     = [Post ''/cart'' (''819e1fbf-a459-4c89-9e03-9b5d1a5fc1b0'', 1) ''add_to_cart'',
        Get ''/basket.html'' ''view_cart'']"
    by (simp add: run_cycle_def get_next_task_def task_body_defs random_choice_def
        counter_randbelow_def tasks_nth item_ids_def respond_ok_def new_user_def Let_def)
  have c1: "cart_items (fst (snd (run_cycles Pattern counter_randbelow
          [respond_ok, respond_ok] new_user 93)))
     = [''819e1fbf-a459-4c89-9e03-9b5d1a5fc1b0'']"
    by (simp add: run_cycle_def get_next_task_def task_body_defs random_choice_def
        counter_randbelow_def tasks_nth item_ids_def respond_ok_def new_user_def Let_def)
  have c2: "cart_items (fst (snd (run_cycles Pattern counter_randbelow
          [respond_error, respond_error] new_user 93)))
     = []"
    by (simp add: run_cycle_def get_next_task_def task_body_defs random_choice_def
        counter_randbelow_def tasks_nth item_ids_def respond_error_def new_user_def Let_def)
  from session_requests_ignore_outcomes [OF m, of Pattern counter_randbelow new_user 93 new_user]
  have e: "fst (run_cycles Pattern counter_randbelow [respond_ok, respond_ok] new_user 93)
     = fst (run_cycles Pattern counter_randbelow [respond_error, respond_error] new_user 93)"
    by blast
  from m e v c1 c2 show ?thesis by blast
qed

end
